theory Spec2Isabelle
  imports Main
begin

section \<open>Duplicate report of find\_duplicates.py\<close>

text \<open>
  A shallow embedding of \<^verbatim>\<open>src/find_duplicates.py\<close>: the classes \<^verbatim>\<open>MatchSet\<close>,
  \<^verbatim>\<open>DuplicateInFolder\<close>, \<^verbatim>\<open>NextcloudInfo\<close> and \<^verbatim>\<open>JDupesOutput\<close> and the function
  \<^verbatim>\<open>humansize\<close>.

  Conventions of the embedding.
  \<^item> A Python exception is a value \<open>Inl e\<close> of the sum type \<open>error + 'a\<close>.
  \<^item> A Python \<^verbatim>\<open>set\<close> is the list of its elements, without repetitions; \<open>set_add\<close> is
    \<^verbatim>\<open>set.add\<close>. CPython leaves the iteration order of a set unspecified. Where the
    program builds a set or a dict or a sum from the iteration, the result does not
    depend on the order and the model iterates the list as it is (of two entries that
    Python's \<^verbatim>\<open>==\<close> identifies, with the sizes \<^verbatim>\<open>1\<close> and \<^verbatim>\<open>True\<close>, a set keeps the one
    added first; the report prints the same text for both); where the order reaches the
    text of the report, it is a parameter (see \<open>Env\<close>).
  \<^item> A \<^verbatim>\<open>frozenset\<close> field, compared by value, is a HOL set.
  \<^item> A \<^verbatim>\<open>MatchSet\<close> has no \<^verbatim>\<open>__eq__\<close>: Python compares and hashes it by object
    identity. The record carries that identity as \<open>ms_id\<close>, the allocation number of the
    object, so that two match sets with the same content remain two objects.
  \<^item> A \<^verbatim>\<open>cached_property\<close> is the function it caches: the attributes it reads are never
    assigned after construction.
  \<^item> A Python \<^verbatim>\<open>str\<close> is a \<open>string\<close>; a \<open>char\<close> stands for a code point below 256.
  \<^item> A Python \<^verbatim>\<open>float\<close> is the exact value of a finite binary64 number; the program only
    converts integers, divides by 1024 and formats, and each of these is modelled with its
    rounding.
  \<^item> The file system, \<^verbatim>\<open>urllib.parse.quote\<close>, \<^verbatim>\<open>date.fromisoformat\<close> and the run of
    jdupes are outside the program and are parameters.
  \<^item> \<^verbatim>\<open>Log.info\<close> only prints and is left out.
\<close>

subsection \<open>Paths (pathlib, POSIX flavour)\<close>

text \<open>
  A \<^verbatim>\<open>PurePosixPath\<close> is its root (\<^verbatim>\<open>''\<close>, \<^verbatim>\<open>'/'\<close> or \<^verbatim>\<open>'//'\<close>) and its parts after the
  root. Equality and hashing of paths are structural.
\<close>

datatype root = NoRoot | Root | Root2

datatype Path = Path (root: root) (parts: "string list")

text \<open>
  \<^verbatim>\<open>str.split(sep)\<close> with a one-character separator. The result is never empty, so the
  first branch of the \<open>case\<close> is never taken.
\<close>

fun split_on :: "char \<Rightarrow> string \<Rightarrow> string list" where
  "split_on c [] = [[]]"
| "split_on c (x # xs) =
     (if x = c then [] # split_on c xs
      else (case split_on c xs of [] \<Rightarrow> [[x]] | y # ys \<Rightarrow> (x # y) # ys))"

definition path_parts :: "string \<Rightarrow> string list" where
  "path_parts rel = filter (\<lambda>x. x \<noteq> [] \<and> x \<noteq> ''.'') (split_on CHR ''/'' rel)"

text \<open>
  \<^verbatim>\<open>Path(s)\<close> for a string: \<^verbatim>\<open>posixpath.splitroot\<close> (exactly two leading slashes are a
  root of their own), then the parts, without empty parts and \<^verbatim>\<open>'.'\<close>.
\<close>

definition Path_of_str :: "string \<Rightarrow> Path" where
  "Path_of_str p =
     (if take 1 p \<noteq> ''/'' then Path NoRoot (path_parts p)
      else if take 1 (drop 1 p) \<noteq> ''/'' \<or> take 1 (drop 2 p) = ''/''
        then Path Root (path_parts (drop 1 p))
      else Path Root2 (path_parts (drop 2 p)))"

text \<open>\<^verbatim>\<open>path.parent\<close>: a path without parts is its own parent.\<close>

definition parent :: "Path \<Rightarrow> Path" where
  "parent p = (if parts p = [] then p else Path (root p) (butlast (parts p)))"

text \<open>\<^verbatim>\<open>path.name\<close>.\<close>

definition name :: "Path \<Rightarrow> string" where
  "name p = (if parts p = [] then [] else last (parts p))"

text \<open>\<^verbatim>\<open>sep.join(xs)\<close>.\<close>

fun join :: "string \<Rightarrow> string list \<Rightarrow> string" where
  "join sep [] = []"
| "join sep [x] = x"
| "join sep (x # y # ys) = x @ sep @ join sep (y # ys)"

text \<open>\<^verbatim>\<open>str(path)\<close>.\<close>

definition str_of_Path :: "Path \<Rightarrow> string" where
  "str_of_Path p =
     (case root p of
        NoRoot \<Rightarrow> (if parts p = [] then ''.'' else join ''/'' (parts p))
      | Root \<Rightarrow> ''/'' @ join ''/'' (parts p)
      | Root2 \<Rightarrow> ''//'' @ join ''/'' (parts p))"

subsection \<open>JSON values and errors\<close>

text \<open>
  What \<^verbatim>\<open>json.loads\<close> returns, numbers with a fraction or an exponent apart (jdupes
  prints sizes as integers). A \<^verbatim>\<open>dict\<close> is an association list; the first binding of a
  key is the dict's.
\<close>

datatype json =
    JNull
  | JBool bool
  | JInt int
  | JStr string
  | JList "json list"
  | JDict "(string \<times> json) list"

datatype error =
    KeyError string
  | KeyError_Path Path
  | TypeError
  | ValueError
  | OverflowError
  | OSError

text \<open>A loop whose body may raise: the first exception ends it.\<close>

fun foldM :: "('a \<Rightarrow> 'b \<Rightarrow> error + 'b) \<Rightarrow> 'a list \<Rightarrow> 'b \<Rightarrow> error + 'b" where
  "foldM f [] acc = Inr acc"
| "foldM f (x # xs) acc = (case f x acc of Inl e \<Rightarrow> Inl e | Inr acc' \<Rightarrow> foldM f xs acc')"

text \<open>\<^verbatim>\<open>obj[key]\<close> with a string key: only a dict has string keys.\<close>

fun getitem :: "json \<Rightarrow> string \<Rightarrow> error + json" where
  "getitem (JDict kvs) key =
     (case map_of kvs key of None \<Rightarrow> Inl (KeyError key) | Some v \<Rightarrow> Inr v)"
| "getitem _ key = Inl TypeError"

text \<open>
  \<^verbatim>\<open>for x in obj\<close>: a list gives its elements, a string its characters, a dict its keys;
  nothing else is iterable.
\<close>

fun iter :: "json \<Rightarrow> error + json list" where
  "iter (JList xs) = Inr xs"
| "iter (JStr s) = Inr (map (\<lambda>c. JStr [c]) s)"
| "iter (JDict kvs) = Inr (map JStr (rev (remdups (rev (map fst kvs)))))"
| "iter _ = Inl TypeError"

text \<open>\<^verbatim>\<open>set.add\<close> on a set kept as a list in insertion order.\<close>

definition set_add :: "'a \<Rightarrow> 'a list \<Rightarrow> 'a list" where
  "set_add x xs = (if x \<in> set xs then xs else xs @ [x])"

subsection \<open>MatchSet\<close>

record MatchSet =
  ms_id :: nat
  file_size :: json
  file_list :: "Path list"

text \<open>\<^verbatim>\<open>Path(x)\<close>: only a string is accepted.\<close>

fun Path_init :: "json \<Rightarrow> error + Path" where
  "Path_init (JStr s) = Inr (Path_of_str s)"
| "Path_init _ = Inl TypeError"

definition get_file_list :: "json \<Rightarrow> error + Path list" where
  "get_file_list json_data =
     (case getitem json_data ''fileList'' of
        Inl e \<Rightarrow> Inl e
      | Inr fl \<Rightarrow>
          (case iter fl of
             Inl e \<Rightarrow> Inl e
           | Inr str_paths \<Rightarrow>
               foldM (\<lambda>str_path result.
                 case getitem str_path ''filePath'' of
                   Inl e \<Rightarrow> Inl e
                 | Inr fp \<Rightarrow> (case Path_init fp of Inl e \<Rightarrow> Inl e | Inr p \<Rightarrow> Inr (result @ [p])))
               str_paths []))"

text \<open>
  \<^verbatim>\<open>MatchSet.__init__\<close>; the first argument is the identity of the new object. The size
  is stored as it comes (the annotation \<^verbatim>\<open>int\<close> is not checked).
\<close>

definition MatchSet_init :: "nat \<Rightarrow> json \<Rightarrow> error + MatchSet" where
  "MatchSet_init i json_data =
     (case getitem json_data ''fileSize'' of
        Inl e \<Rightarrow> Inl e
      | Inr sz \<Rightarrow>
          (case get_file_list json_data of
             Inl e \<Rightarrow> Inl e
           | Inr fl \<Rightarrow> Inr \<lparr>ms_id = i, file_size = sz, file_list = fl\<rparr>))"

definition directory_list :: "MatchSet \<Rightarrow> Path list" where
  "directory_list m = map parent (file_list m)"

subsection \<open>DuplicateInFolder\<close>

record DuplicateInFolder =
  in_duplicate_folder :: Path
  other_paths :: "Path set"
  size_dup :: json

text \<open>
  The dataclass is frozen with \<^verbatim>\<open>eq\<close>: an entry is hashed and compared as the tuple of
  its fields. A \<^verbatim>\<open>list\<close> and a \<^verbatim>\<open>dict\<close> have no hash.
\<close>

fun hashable :: "json \<Rightarrow> bool" where
  "hashable (JList xs) = False"
| "hashable (JDict kvs) = False"
| "hashable v = True"

text \<open>
  Python's \<^verbatim>\<open>==\<close> on hashable values: \<^verbatim>\<open>True == 1\<close> and \<^verbatim>\<open>False == 0\<close> (with equal
  hashes), everything else is equal to itself only. \<open>py_key\<close> maps equal values to the
  same value.
\<close>

fun py_key :: "json \<Rightarrow> json" where
  "py_key (JBool b) = JInt (if b then 1 else 0)"
| "py_key v = v"

definition entry_key :: "DuplicateInFolder \<Rightarrow> Path \<times> Path set \<times> json" where
  "entry_key d = (in_duplicate_folder d, other_paths d, py_key (size_dup d))"

text \<open>
  \<^verbatim>\<open>result.add(d)\<close> for a set of entries: hashing \<open>d\<close> raises \<^verbatim>\<open>TypeError\<close> when its size
  has no hash; an entry equal to \<open>d\<close> that is in the set already stays, and \<open>d\<close> is
  dropped.
\<close>

definition add_entry :: "DuplicateInFolder \<Rightarrow> DuplicateInFolder list \<Rightarrow> error + DuplicateInFolder list" where
  "add_entry d result =
     (if \<not> hashable (size_dup d) then Inl TypeError
      else if entry_key d \<in> entry_key ` set result then Inr result
      else Inr (result @ [d]))"

subsection \<open>NextcloudInfo\<close>

record NextcloudInfo =
  domain :: string
  user :: string

definition user_file_path :: "NextcloudInfo \<Rightarrow> Path" where
  "user_file_path info = Path_of_str (''/var/www/html/data/'' @ user info @ ''/files/'')"

definition base_file_url :: "NextcloudInfo \<Rightarrow> string" where
  "base_file_url info = domain info @ ''/apps/files/?dir=/''"

subsection \<open>JDupesOutput: the folder index and the per-folder analysis\<close>

type_synonym date = "int \<times> int \<times> int"

record JDupesOutput =
  nextcloud_info :: NextcloudInfo
  version :: json
  version_date :: date
  command_line :: json
  extension_flags :: json
  match_sets :: "MatchSet list"
  folder_cache :: "Path \<rightharpoonup> MatchSet list"

text \<open>
  \<^verbatim>\<open>_get_matchsets\<close>: one new object per element of \<^verbatim>\<open>json_data["matchSets"]\<close>; the
  counter numbers the objects.
\<close>

fun matchsets_from :: "nat \<Rightarrow> json list \<Rightarrow> MatchSet list \<Rightarrow> error + MatchSet list" where
  "matchsets_from i [] result = Inr result"
| "matchsets_from i (match_set # rest) result =
     (case MatchSet_init i match_set of
        Inl e \<Rightarrow> Inl e
      | Inr m \<Rightarrow> matchsets_from (Suc i) rest (set_add m result))"

definition get_matchsets :: "json \<Rightarrow> error + MatchSet list" where
  "get_matchsets json_data =
     (case getitem json_data ''matchSets'' of
        Inl e \<Rightarrow> Inl e
      | Inr v \<Rightarrow> (case iter v of Inl e \<Rightarrow> Inl e | Inr xs \<Rightarrow> matchsets_from 0 xs []))"

text \<open>The body of the inner loop of \<^verbatim>\<open>_create_folder_cache\<close>.\<close>

definition cache_add :: "MatchSet \<Rightarrow> Path \<Rightarrow> (Path \<rightharpoonup> MatchSet list) \<Rightarrow> (Path \<rightharpoonup> MatchSet list)" where
  "cache_add match_set folder result =
     (case result folder of
        None \<Rightarrow> result(folder \<mapsto> set_add match_set [])
      | Some s \<Rightarrow> result(folder \<mapsto> set_add match_set s))"

definition create_folder_cache :: "MatchSet list \<Rightarrow> (Path \<rightharpoonup> MatchSet list)" where
  "create_folder_cache ms =
     fold (\<lambda>match_set result. fold (cache_add match_set) (directory_list match_set) result)
       ms Map.empty"

text \<open>
  \<^verbatim>\<open>JDupesOutput.__init__\<close>, from the dict that \<^verbatim>\<open>_execute_jdupes\<close> returns (the run of
  the external tool). \<^verbatim>\<open>datetime.date.fromisoformat\<close> is the library's and a parameter.
\<close>

definition JDupesOutput_init ::
  "(json \<Rightarrow> error + date) \<Rightarrow> NextcloudInfo \<Rightarrow> json \<Rightarrow> error + JDupesOutput" where
  "JDupesOutput_init fromisoformat info json_data =
     (case getitem json_data ''jdupesVersion'' of Inl e \<Rightarrow> Inl e | Inr v \<Rightarrow>
     (case getitem json_data ''jdupesVersionDate'' of Inl e \<Rightarrow> Inl e | Inr version_date_str \<Rightarrow>
     (case fromisoformat version_date_str of Inl e \<Rightarrow> Inl e | Inr d \<Rightarrow>
     (case getitem json_data ''commandLine'' of Inl e \<Rightarrow> Inl e | Inr c \<Rightarrow>
     (case getitem json_data ''extensionFlags'' of Inl e \<Rightarrow> Inl e | Inr x \<Rightarrow>
     (case get_matchsets json_data of Inl e \<Rightarrow> Inl e | Inr ms \<Rightarrow>
        Inr \<lparr>nextcloud_info = info, version = v, version_date = d, command_line = c,
             extension_flags = x, match_sets = ms,
             folder_cache = create_folder_cache ms\<rparr>))))))"

text \<open>\<^verbatim>\<open>folders_with_duplicates\<close>.\<close>

definition folders_with_duplicates :: "JDupesOutput \<Rightarrow> Path list" where
  "folders_with_duplicates self =
     fold (\<lambda>match_set result.
            fold (\<lambda>file_path result. set_add (parent file_path) result) (file_list match_set) result)
       (match_sets self) []"

text \<open>\<^verbatim>\<open>set.remove\<close> raises \<^verbatim>\<open>KeyError\<close> on an element that is not in the set.\<close>

definition set_remove :: "Path \<Rightarrow> Path set \<Rightarrow> error + Path set" where
  "set_remove x s = (if x \<in> s then Inr (s - {x}) else Inl (KeyError_Path x))"

text \<open>The body of the \<^verbatim>\<open>if\<close> in \<^verbatim>\<open>duplicates_in_folder\<close>: the entry of one file.\<close>

definition duplicate_of :: "MatchSet \<Rightarrow> Path \<Rightarrow> error + DuplicateInFolder" where
  "duplicate_of match_set file_path =
     (case set_remove file_path (set (file_list match_set)) of
        Inl e \<Rightarrow> Inl e
      | Inr other_files \<Rightarrow>
          Inr \<lparr>in_duplicate_folder = file_path, other_paths = other_files,
               size_dup = file_size match_set\<rparr>)"

definition duplicates_in_folder :: "JDupesOutput \<Rightarrow> Path \<Rightarrow> error + DuplicateInFolder list" where
  "duplicates_in_folder self folder =
     (case folder_cache self folder of
        None \<Rightarrow> Inl (KeyError_Path folder)
      | Some cached \<Rightarrow>
          foldM (\<lambda>match_set result.
                  foldM (\<lambda>file_path result.
                          if parent file_path = folder
                          then (case duplicate_of match_set file_path of
                                  Inl e \<Rightarrow> Inl e
                                | Inr d \<Rightarrow> add_entry d result)
                          else Inr result)
                    (file_list match_set) result)
            cached [])"

subsection \<open>humansize\<close>

text \<open>
  \<^verbatim>\<open>humansize\<close> is called with a Python \<^verbatim>\<open>int\<close>; the first \<^verbatim>\<open>nbytes /= 1024.\<close> makes it
  a \<^verbatim>\<open>float\<close>. A finite binary64 value is kept exactly, as \<open>Float m e\<close> for \<open>m * 2 ^ e\<close>.
\<close>

datatype float = Float int int

datatype number = PyInt int | PyFloat float

text \<open>The number of binary digits of a non-negative integer.\<close>

function bitlen :: "int \<Rightarrow> nat" where
  "bitlen a = (if a \<le> 0 then 0 else Suc (bitlen (a div 2)))"
  by pat_completeness auto
termination
  by (relation "measure nat") auto

declare bitlen.simps [simp del]

text \<open>Rounding \<open>a / d\<close> to the nearest integer, a tie to the even one.\<close>

definition round_half_even :: "int \<Rightarrow> int \<Rightarrow> int" where
  "round_half_even a d =
     (let q = a div d; r = a mod d
      in if d < 2 * r \<or> (2 * r = d \<and> odd q) then q + 1 else q)"

text \<open>
  \<^verbatim>\<open>float(n)\<close> for an \<^verbatim>\<open>int\<close>: exact below \<open>2 ^ 53\<close>, otherwise rounded to 53 significant
  bits (ties to even); \<^verbatim>\<open>OverflowError\<close> when the result would reach \<open>2 ^ 1024\<close>.
\<close>

definition float_of_int :: "int \<Rightarrow> error + float" where
  "float_of_int n =
     (let a = \<bar>n\<bar>; k = bitlen a - 53; q = round_half_even a (2 ^ k)
      in if 2 ^ 1024 \<le> q * 2 ^ k then Inl OverflowError
         else Inr (Float (sgn n * q) (int k)))"

text \<open>\<^verbatim>\<open>nbytes >= 1024\<close>.\<close>

fun ge_1024 :: "number \<Rightarrow> bool" where
  "ge_1024 (PyInt n) = (1024 \<le> n)"
| "ge_1024 (PyFloat (Float m e)) =
     (if 0 \<le> e then 1024 \<le> m * 2 ^ nat e else 1024 * 2 ^ nat (- e) \<le> m)"

text \<open>
  \<^verbatim>\<open>nbytes / 1024.\<close>: an \<^verbatim>\<open>int\<close> is converted first. The loop divides values of at least
  1024 only, where the binary64 quotient by \<open>2 ^ 10\<close> is exact: only the exponent changes.
\<close>

fun truediv_1024 :: "number \<Rightarrow> error + number" where
  "truediv_1024 (PyInt n) =
     (case float_of_int n of
        Inl err \<Rightarrow> Inl err
      | Inr (Float m e) \<Rightarrow> Inr (PyFloat (Float m (e - 10))))"
| "truediv_1024 (PyFloat (Float m e)) = Inr (PyFloat (Float m (e - 10)))"

definition suffixes :: "string list" where
  "suffixes = [''B'', ''KB'', ''MB'', ''GB'', ''TB'', ''PB'']"

text \<open>The \<^verbatim>\<open>while\<close> loop of \<^verbatim>\<open>humansize\<close>.\<close>

function humansize_loop :: "number \<Rightarrow> nat \<Rightarrow> error + number \<times> nat" where
  "humansize_loop nbytes i =
     (if ge_1024 nbytes \<and> i < length suffixes - 1
      then (case truediv_1024 nbytes of
              Inl err \<Rightarrow> Inl err
            | Inr x \<Rightarrow> humansize_loop x (i + 1))
      else Inr (nbytes, i))"
  by pat_completeness auto
termination
  by (relation "measure (\<lambda>(nbytes, i). length suffixes - 1 - i)") auto

declare humansize_loop.simps [simp del]

text \<open>A decimal digit as a character.\<close>

definition digit :: "int \<Rightarrow> char" where
  "digit d = ''0123456789'' ! nat d"

text \<open>\<^verbatim>\<open>str(n)\<close> for a non-negative integer.\<close>

function str_of_nat :: "int \<Rightarrow> string" where
  "str_of_nat n =
     (if n < 10 then [digit n] else str_of_nat (n div 10) @ [digit (n mod 10)])"
  by pat_completeness auto
termination
  by (relation "measure nat") auto

declare str_of_nat.simps [simp del]

text \<open>
  \<^verbatim>\<open>f'{x:.2f}'\<close> for a finite float: the decimal expansion of the exact value, correctly
  rounded to two places (ties to even), with a minus sign for a negative value.
\<close>

fun format_2f_float :: "float \<Rightarrow> string" where
  "format_2f_float (Float m e) =
     (let a = 100 * \<bar>m\<bar>;
          h = (if 0 \<le> e then a * 2 ^ nat e else round_half_even a (2 ^ nat (- e)))
      in (if m < 0 then ''-'' else []) @
         str_of_nat (h div 100) @ ''.'' @ [digit (h mod 100 div 10), digit (h mod 10)])"

text \<open>An \<^verbatim>\<open>int\<close> is formatted with \<^verbatim>\<open>.2f\<close> through its conversion to \<^verbatim>\<open>float\<close>.\<close>

fun format_2f :: "number \<Rightarrow> error + string" where
  "format_2f (PyInt n) =
     (case float_of_int n of Inl err \<Rightarrow> Inl err | Inr x \<Rightarrow> Inr (format_2f_float x))"
| "format_2f (PyFloat x) = Inr (format_2f_float x)"

text \<open>\<^verbatim>\<open>s.rstrip(c)\<close> for one character.\<close>

definition rstrip :: "char \<Rightarrow> string \<Rightarrow> string" where
  "rstrip c s = rev (dropWhile (\<lambda>x. x = c) (rev s))"

definition humansize :: "int \<Rightarrow> error + string" where
  "humansize nbytes =
     (case humansize_loop (PyInt nbytes) 0 of
        Inl err \<Rightarrow> Inl err
      | Inr (x, i) \<Rightarrow>
          (case format_2f x of
             Inl err \<Rightarrow> Inl err
           | Inr s \<Rightarrow> Inr (rstrip CHR ''.'' (rstrip CHR ''0'' s) @ ''  '' @ suffixes ! i)))"

text \<open>
  \<^verbatim>\<open>humansize\<close> on a value as \<^verbatim>\<open>json.loads\<close> gave it: \<^verbatim>\<open>bool\<close> is a subclass of
  \<^verbatim>\<open>int\<close>; for anything else \<^verbatim>\<open>nbytes >= 1024\<close> raises \<^verbatim>\<open>TypeError\<close>.
\<close>

fun humansize_any :: "json \<Rightarrow> error + string" where
  "humansize_any (JInt n) = humansize n"
| "humansize_any (JBool b) = humansize (if b then 1 else 0)"
| "humansize_any _ = Inl TypeError"

text \<open>\<^verbatim>\<open>sum(xs)\<close>, from the start value \<^verbatim>\<open>0\<close>.\<close>

definition py_sum :: "json list \<Rightarrow> error + int" where
  "py_sum xs =
     foldM (\<lambda>x acc. case x of
                       JInt n \<Rightarrow> Inr (acc + n)
                     | JBool b \<Rightarrow> Inr (acc + (if b then 1 else 0))
                     | _ \<Rightarrow> Inl TypeError)
       xs 0"

definition total_size :: "JDupesOutput \<Rightarrow> error + int" where
  "total_size self = py_sum (map file_size (match_sets self))"

text \<open>
  The argument of \<^verbatim>\<open>humansize\<close> in the per-folder size line of \<^verbatim>\<open>to_markdown\<close>:
  \<^verbatim>\<open>sum(map(lambda x: x.size, self.duplicates_in_folder(duplicate_folder)))\<close>.
\<close>

definition duplicate_folder_sum :: "JDupesOutput \<Rightarrow> Path \<Rightarrow> error + int" where
  "duplicate_folder_sum self folder =
     (case duplicates_in_folder self folder of
        Inl e \<Rightarrow> Inl e
      | Inr ds \<Rightarrow> py_sum (map size_dup ds))"

subsection \<open>Links\<close>

text \<open>
  \<^verbatim>\<open>path.relative_to(other)\<close>: \<^verbatim>\<open>ValueError\<close> unless \<open>other\<close> is the path or one of its
  ancestors.
\<close>

definition relative_to :: "Path \<Rightarrow> Path \<Rightarrow> error + Path" where
  "relative_to p other =
     (if root p = root other \<and> take (length (parts other)) (parts p) = parts other
      then Inr (Path NoRoot (drop (length (parts other)) (parts p)))
      else Inl ValueError)"

text \<open>
  What the program takes from outside: the directory listing (\<open>None\<close> when
  \<^verbatim>\<open>iterdir\<close> raises an \<^verbatim>\<open>OSError\<close>), \<^verbatim>\<open>Path.is_dir\<close>, \<^verbatim>\<open>urllib.parse.quote\<close>, and the
  orders in which CPython iterates the sets whose order reaches the report. These
  depend on the hashes of the elements (for paths, on the hash seed of the run):
  \<open>frozenset_iter\<close> for the \<^verbatim>\<open>frozenset\<close> of the other copies, \<open>folders_iter\<close> for the set
  \<^verbatim>\<open>folders_with_duplicates\<close>, given with its elements as a list, and \<open>entries_iter\<close> for
  the set that \<^verbatim>\<open>duplicates_in_folder\<close> returned, given likewise.
\<close>

record Env =
  iterdir :: "Path \<Rightarrow> Path list option"
  is_dir :: "Path \<Rightarrow> bool"
  quote :: "string \<Rightarrow> string"
  frozenset_iter :: "Path set \<Rightarrow> Path list"
  folders_iter :: "Path list \<Rightarrow> Path list"
  entries_iter :: "DuplicateInFolder list \<Rightarrow> DuplicateInFolder list"

definition create_folder_link :: "Env \<Rightarrow> NextcloudInfo \<Rightarrow> Path \<Rightarrow> string" where
  "create_folder_link env info path =
     ''['' @ str_of_Path path @ '']('' @ base_file_url info @ quote env (str_of_Path path) @ '')''"

text \<open>
  \<^verbatim>\<open>create_link\<close>; \<^verbatim>\<open>is_relative_to\<close> holds exactly when \<^verbatim>\<open>relative_to\<close> does not raise.
\<close>

definition create_link :: "Env \<Rightarrow> NextcloudInfo \<Rightarrow> Path \<Rightarrow> string" where
  "create_link env info path =
     (let path' = (case relative_to path (user_file_path info) of
                     Inl e \<Rightarrow> path
                   | Inr rel \<Rightarrow> rel)
      in if is_dir env path' then create_folder_link env info path'
         else create_folder_link env info (parent path') @ ''/'' @ name path')"

subsection \<open>to\_markdown\<close>

text \<open>The body of the first loop: one folder with its duplicates and its other files.\<close>

definition parse_folder ::
  "Env \<Rightarrow> JDupesOutput \<Rightarrow> Path \<Rightarrow> error + Path \<times> DuplicateInFolder list \<times> Path list" where
  "parse_folder env self duplicate_folder =
     (case iterdir env duplicate_folder of
        None \<Rightarrow> Inl OSError
      | Some all_files \<Rightarrow>
          (case duplicates_in_folder self duplicate_folder of
             Inl e \<Rightarrow> Inl e
           | Inr dups \<Rightarrow>
               (let duplicate_files = fold (\<lambda>d s. set_add (in_duplicate_folder d) s) dups []
                in Inr (duplicate_folder, dups,
                        filter (\<lambda>x. x \<notin> set duplicate_files) all_files))))"

definition parse_folders ::
  "Env \<Rightarrow> JDupesOutput \<Rightarrow> error + (Path \<times> DuplicateInFolder list \<times> Path list) list" where
  "parse_folders env self =
     foldM (\<lambda>duplicate_folder duplicate_folders.
             case parse_folder env self duplicate_folder of
               Inl e \<Rightarrow> Inl e
             | Inr t \<Rightarrow> Inr (duplicate_folders @ [t]))
       (folders_iter env (folders_with_duplicates self)) []"

definition only_duplicates_line :: string where
  "only_duplicates_line = ''Dieser Ordner enth'' @ [CHR 0xE4] @ ''lt nur Duplikate  ''"

text \<open>The lines of one duplicated file: the body of the loop over \<^verbatim>\<open>duplicates_in_folder\<close>.\<close>

definition duplicate_lines :: "Env \<Rightarrow> NextcloudInfo \<Rightarrow> DuplicateInFolder \<Rightarrow> error + string list" where
  "duplicate_lines env info d =
     (case relative_to (in_duplicate_folder d) (user_file_path info) of
        Inl e \<Rightarrow> Inl e
      | Inr rel \<Rightarrow>
          (case humansize_any (size_dup d) of
             Inl e \<Rightarrow> Inl e
           | Inr hs \<Rightarrow>
               Inr [''- '' @ str_of_Path rel @ ''  '',
                    [CHR 0x09] @ ''Gr'' @ [CHR 0xF6, CHR 0xDF] @ ''e: '' @ hs @ ''  '',
                    [CHR 0x09] @ ''Andere(r) Ordner:  '',
                    [CHR 0x09] @ ''- '' @
                      join (''  '' @ [CHR 0x0A, CHR 0x09] @ ''- '')
                        (map (create_link env info) (frozenset_iter env (other_paths d))) @
                      ''  '']))"

text \<open>The lines of one folder: the body of the second loop.\<close>

definition folder_lines ::
  "Env \<Rightarrow> JDupesOutput \<Rightarrow> Path \<times> DuplicateInFolder list \<times> Path list \<Rightarrow> error + string list" where
  "folder_lines env self entry =
     (let duplicate_folder = fst entry;
          dups = fst (snd entry);
          not_duplicate_files = snd (snd entry);
          info = nextcloud_info self;
          folder_link = create_link env info duplicate_folder
      in case duplicate_folder_sum self duplicate_folder of
           Inl e \<Rightarrow> Inl e
         | Inr nbytes \<Rightarrow>
       (case humansize nbytes of
           Inl e \<Rightarrow> Inl e
         | Inr duplicate_folder_size \<Rightarrow>
       (case foldM (\<lambda>d result. case duplicate_lines env info d of
                                  Inl e \<Rightarrow> Inl e
                                | Inr ls \<Rightarrow> Inr (result @ ls)) (entries_iter env dups) [] of
           Inl e \<Rightarrow> Inl e
         | Inr dup_lines \<Rightarrow>
       (case foldM (\<lambda>f result. case relative_to f (user_file_path info) of
                                  Inl e \<Rightarrow> Inl e
                                | Inr rel \<Rightarrow> Inr (result @ [''- '' @ str_of_Path rel]))
               (if 0 < length not_duplicate_files then not_duplicate_files else []) [] of
           Inl e \<Rightarrow> Inl e
         | Inr not_dup_lines \<Rightarrow>
             Inr ([''## Ordner mit Duplikaten: '' @ folder_link,
                   ''Die Duplikate in diesem Ordner sind '' @ duplicate_folder_size @
                     '' gro'' @ [CHR 0xDF] @ ''  ''] @
                  (if length not_duplicate_files = 0 then [only_duplicates_line] else []) @
                  [''### Duplizierte Dateien:''] @
                  dup_lines @
                  (if 0 < length not_duplicate_files
                   then ''### Nicht duplizierte Dateien'' # not_dup_lines else []))))))"

definition header_lines :: "JDupesOutput \<Rightarrow> string \<Rightarrow> string list" where
  "header_lines self total_str =
     [''# Duplikate von '' @ user (nextcloud_info self),
      ''Es gibt '' @ str_of_nat (int (length (match_sets self))) @ '' Duplikate in '' @
        str_of_nat (int (length (folders_with_duplicates self))) @ '' Ordnern.  '',
      ''Diese sind insgesamt '' @ total_str @ '' gro'' @ [CHR 0xDF] @ ''.'',
      ''## Alle Ordner mit Duplikaten'']"

definition to_markdown :: "Env \<Rightarrow> JDupesOutput \<Rightarrow> error + string" where
  "to_markdown env self =
     (case parse_folders env self of
        Inl e \<Rightarrow> Inl e
      | Inr duplicate_folders \<Rightarrow>
     (case total_size self of
        Inl e \<Rightarrow> Inl e
      | Inr nbytes \<Rightarrow>
     (case humansize nbytes of
        Inl e \<Rightarrow> Inl e
      | Inr total_str \<Rightarrow>
     (case foldM (\<lambda>entry result. case folder_lines env self entry of
                                    Inl e \<Rightarrow> Inl e
                                  | Inr ls \<Rightarrow> Inr (result @ ls))
             (sort_key (\<lambda>x. length (snd (snd x))) duplicate_folders)
             (header_lines self total_str) of
        Inl e \<Rightarrow> Inl e
      | Inr result \<Rightarrow> Inr (join [CHR 0x0A] result)))))"

subsection \<open>duplicates\_in\_folder on a store\<close>

text \<open>
  The definitions above treat lists and sets as values. Whether \<^verbatim>\<open>duplicates_in_folder\<close>
  changes an object that the \<^verbatim>\<open>JDupesOutput\<close> holds is a question about references, so
  here the method is modelled once more on a store: the list behind
  \<^verbatim>\<open>match_set.file_list\<close> and the set \<^verbatim>\<open>other_files\<close> are objects at addresses,
  \<^verbatim>\<open>.copy()\<close> and \<^verbatim>\<open>set(...)\<close> allocate, \<^verbatim>\<open>.remove\<close> writes to an address, and the
  \<^verbatim>\<open>for\<close> loop over a list reads the list object again at every step, as a Python list
  iterator does. An address is an index into the list of objects; allocation appends.
  A reference that does not point to an object of the right kind cannot arise in Python;
  the model answers \<^verbatim>\<open>TypeError\<close> there.
\<close>

datatype obj = ListObj "Path list" | SetObj "Path set"

record MatchSetRef =
  ref_id :: nat
  ref_file_size :: json
  ref_file_list :: nat

record Store =
  objects :: "obj list"
  cache :: "Path \<rightharpoonup> MatchSetRef list"

definition alloc :: "obj \<Rightarrow> Store \<Rightarrow> nat \<times> Store" where
  "alloc ob st = (length (objects st), st\<lparr>objects := objects st @ [ob]\<rparr>)"

definition get_list :: "Store \<Rightarrow> nat \<Rightarrow> error + Path list" where
  "get_list st a =
     (if a < length (objects st)
      then (case objects st ! a of ListObj xs \<Rightarrow> Inr xs | SetObj s \<Rightarrow> Inl TypeError)
      else Inl TypeError)"

definition get_set :: "Store \<Rightarrow> nat \<Rightarrow> error + Path set" where
  "get_set st a =
     (if a < length (objects st)
      then (case objects st ! a of SetObj s \<Rightarrow> Inr s | ListObj xs \<Rightarrow> Inl TypeError)
      else Inl TypeError)"

text \<open>\<^verbatim>\<open>xs.copy()\<close>: a new list object with the same elements.\<close>

definition list_copy :: "Store \<Rightarrow> nat \<Rightarrow> error + nat \<times> Store" where
  "list_copy st a =
     (case get_list st a of Inl e \<Rightarrow> Inl e | Inr xs \<Rightarrow> Inr (alloc (ListObj xs) st))"

text \<open>\<^verbatim>\<open>set(xs)\<close>: a new set object.\<close>

definition set_init :: "Store \<Rightarrow> nat \<Rightarrow> error + nat \<times> Store" where
  "set_init st a =
     (case get_list st a of Inl e \<Rightarrow> Inl e | Inr xs \<Rightarrow> Inr (alloc (SetObj (set xs)) st))"

text \<open>\<^verbatim>\<open>s.remove(x)\<close>: writes to the set object.\<close>

definition set_remove_at :: "Store \<Rightarrow> nat \<Rightarrow> Path \<Rightarrow> error + Store" where
  "set_remove_at st c x =
     (case get_set st c of
        Inl e \<Rightarrow> Inl e
      | Inr s \<Rightarrow>
          if x \<in> s then Inr (st\<lparr>objects := (objects st)[c := SetObj (s - {x})]\<rparr>)
          else Inl (KeyError_Path x))"

text \<open>The body of the \<^verbatim>\<open>if\<close>, on the store.\<close>

definition duplicate_of_ref ::
  "Store \<Rightarrow> MatchSetRef \<Rightarrow> Path \<Rightarrow> error + DuplicateInFolder \<times> Store" where
  "duplicate_of_ref st match_set file_path =
     (case list_copy st (ref_file_list match_set) of
        Inl e \<Rightarrow> Inl e
      | Inr (copy, st1) \<Rightarrow>
     (case set_init st1 copy of
        Inl e \<Rightarrow> Inl e
      | Inr (other_files, st2) \<Rightarrow>
     (case set_remove_at st2 other_files file_path of
        Inl e \<Rightarrow> Inl e
      | Inr st3 \<Rightarrow>
     (case get_set st3 other_files of
        Inl e \<Rightarrow> Inl e
      | Inr other_files_frozen \<Rightarrow>
          Inr (\<lparr>in_duplicate_folder = file_path, other_paths = other_files_frozen,
                size_dup = ref_file_size match_set\<rparr>, st3)))))"

text \<open>
  The inner \<^verbatim>\<open>for\<close> loop from index \<open>i\<close> on. It ends when the index reaches the current
  length of the list object; \<open>None\<close> stands for a loop that never ends.
\<close>

partial_function (option) files_loop ::
  "MatchSetRef \<Rightarrow> Path \<Rightarrow> nat \<Rightarrow> DuplicateInFolder list \<Rightarrow> Store \<Rightarrow>
     (error + DuplicateInFolder list \<times> Store) option" where
  "files_loop match_set folder i result st =
     (case get_list st (ref_file_list match_set) of
        Inl e \<Rightarrow> Some (Inl e)
      | Inr xs \<Rightarrow>
          if i < length xs
          then (if parent (xs ! i) = folder
                then (case duplicate_of_ref st match_set (xs ! i) of
                        Inl e \<Rightarrow> Some (Inl e)
                      | Inr (d, st') \<Rightarrow>
                          (case add_entry d result of
                             Inl e \<Rightarrow> Some (Inl e)
                           | Inr result' \<Rightarrow> files_loop match_set folder (i + 1) result' st'))
                else files_loop match_set folder (i + 1) result st)
          else Some (Inr (result, st)))"

text \<open>The outer loop, over the set that the cache holds for the folder.\<close>

fun groups_loop ::
  "MatchSetRef list \<Rightarrow> Path \<Rightarrow> DuplicateInFolder list \<Rightarrow> Store \<Rightarrow>
     (error + DuplicateInFolder list \<times> Store) option" where
  "groups_loop [] folder result st = Some (Inr (result, st))"
| "groups_loop (match_set # rest) folder result st =
     (case files_loop match_set folder 0 result st of
        None \<Rightarrow> None
      | Some (Inl e) \<Rightarrow> Some (Inl e)
      | Some (Inr (result', st')) \<Rightarrow> groups_loop rest folder result' st')"

definition duplicates_in_folder_store ::
  "Store \<Rightarrow> Path \<Rightarrow> (error + DuplicateInFolder list \<times> Store) option" where
  "duplicates_in_folder_store st folder =
     (case cache st folder of
        None \<Rightarrow> Some (Inl (KeyError_Path folder))
      | Some cached \<Rightarrow> groups_loop cached folder [] st)"

section \<open>Auxiliary definitions for the proofs\<close>

text \<open>
  The entry that the specification lists for a member \<open>m\<close> of a group \<open>g\<close>: the file is
  the member, the other copies are the group's members without it, the size is the
  group's.
\<close>

definition entry_of :: "MatchSet \<Rightarrow> Path \<Rightarrow> DuplicateInFolder" where
  "entry_of g m =
     \<lparr>in_duplicate_folder = m, other_paths = set (file_list g) - {m}, size_dup = file_size g\<rparr>"

text \<open>The members of a group that lie directly in a folder.\<close>

definition members_in :: "MatchSet \<Rightarrow> Path \<Rightarrow> Path set" where
  "members_in g folder = {m \<in> set (file_list g). parent m = folder}"

text \<open>The groups that a cache holds for a folder, as a set.\<close>

definition cached :: "(Path \<rightharpoonup> MatchSet list) \<Rightarrow> Path \<Rightarrow> MatchSet set" where
  "cached r f = (case r f of None \<Rightarrow> {} | Some s \<Rightarrow> set s)"

definition cache_ok :: "(Path \<rightharpoonup> MatchSet list) \<Rightarrow> bool" where
  "cache_ok r = (\<forall>f s. r f = Some s \<longrightarrow> distinct s)"

text \<open>The integer that Python's \<^verbatim>\<open>+\<close> takes a value for, if any (\<^verbatim>\<open>True\<close> is 1).\<close>

fun as_int :: "json \<Rightarrow> int option" where
  "as_int (JInt n) = Some n"
| "as_int (JBool b) = Some (if b then 1 else 0)"
| "as_int _ = None"

text \<open>A size as the input schema has it: an integer.\<close>

fun is_JInt :: "json \<Rightarrow> bool" where
  "is_JInt (JInt n) = True"
| "is_JInt v = False"

definition is_KeyError :: "error \<Rightarrow> bool" where
  "is_KeyError e = (case e of KeyError k \<Rightarrow> True | KeyError_Path p \<Rightarrow> True | _ \<Rightarrow> False)"

text \<open>The match set that a reference stands for, and the cache of values.\<close>

definition deref :: "Store \<Rightarrow> MatchSetRef \<Rightarrow> MatchSet" where
  "deref st g =
     \<lparr>ms_id = ref_id g, file_size = ref_file_size g,
      file_list = (case get_list st (ref_file_list g) of Inl e \<Rightarrow> [] | Inr xs \<Rightarrow> xs)\<rparr>"

definition cache_values :: "Store \<Rightarrow> (Path \<rightharpoonup> MatchSet list)" where
  "cache_values st = (\<lambda>folder. map_option (map (deref st)) (cache st folder))"

subsection \<open>The example of the specification\<close>

text \<open>
  Group A of size 100 with the files /d1/a, /d1/b, /d2/a and group B of size 50 with
  the files /d2/c, /d2/d, as jdupes would print them.
\<close>

definition example_json :: json where
  "example_json = JDict
     [(''jdupesVersion'', JStr ''1.21.0''),
      (''jdupesVersionDate'', JStr ''2022-09-03''),
      (''commandLine'', JStr ''jdupes -j -r /''),
      (''extensionFlags'', JStr ''none''),
      (''matchSets'', JList
         [JDict [(''fileSize'', JInt 100),
                 (''fileList'', JList [JDict [(''filePath'', JStr ''/d1/a'')],
                                       JDict [(''filePath'', JStr ''/d1/b'')],
                                       JDict [(''filePath'', JStr ''/d2/a'')]])],
          JDict [(''fileSize'', JInt 50),
                 (''fileList'', JList [JDict [(''filePath'', JStr ''/d2/c'')],
                                       JDict [(''filePath'', JStr ''/d2/d'')]])]])]"

definition example_date :: "json \<Rightarrow> error + date" where
  "example_date v = (if v = JStr ''2022-09-03'' then Inr (2022, 9, 3) else Inl ValueError)"

definition example_info :: NextcloudInfo where
  "example_info = \<lparr>domain = ''https://cloud.example'', user = ''u''\<rparr>"

definition group_A :: MatchSet where
  "group_A = \<lparr>ms_id = 0, file_size = JInt 100,
              file_list = [Path Root [''d1'', ''a''], Path Root [''d1'', ''b''],
                           Path Root [''d2'', ''a'']]\<rparr>"

definition group_B :: MatchSet where
  "group_B = \<lparr>ms_id = 1, file_size = JInt 50,
              file_list = [Path Root [''d2'', ''c''], Path Root [''d2'', ''d'']]\<rparr>"

definition example_output :: JDupesOutput where
  "example_output =
     \<lparr>nextcloud_info = example_info, version = JStr ''1.21.0'', version_date = (2022, 9, 3),
      command_line = JStr ''jdupes -j -r /'', extension_flags = JStr ''none'',
      match_sets = [group_A, group_B],
      folder_cache = create_folder_cache [group_A, group_B]\<rparr>"

text \<open>The groups A and B of the example on a store.\<close>

definition ref_A :: MatchSetRef where
  "ref_A = \<lparr>ref_id = 0, ref_file_size = JInt 100, ref_file_list = 0\<rparr>"

definition ref_B :: MatchSetRef where
  "ref_B = \<lparr>ref_id = 1, ref_file_size = JInt 50, ref_file_list = 1\<rparr>"

definition example_store :: Store where
  "example_store =
     \<lparr>objects = [ListObj [Path Root [''d1'', ''a''], Path Root [''d1'', ''b''],
                           Path Root [''d2'', ''a'']],
                  ListObj [Path Root [''d2'', ''c''], Path Root [''d2'', ''d'']]],
      cache = [Path Root [''d1''] \<mapsto> [ref_A], Path Root [''d2''] \<mapsto> [ref_A, ref_B]]\<rparr>"

subsection \<open>An example report\<close>

text \<open>
  One group of two files of 2048 bytes, in the folders x and y of the user u. On disk,
  x holds a second file that is no duplicate and y holds the duplicate alone.
\<close>

definition report_json :: json where
  "report_json = JDict
     [(''jdupesVersion'', JStr ''1.21.0''),
      (''jdupesVersionDate'', JStr ''2022-09-03''),
      (''commandLine'', JStr ''jdupes -j -r /var/www/html/data/u/files''),
      (''extensionFlags'', JStr ''none''),
      (''matchSets'', JList
         [JDict [(''fileSize'', JInt 2048),
                 (''fileList'', JList [JDict [(''filePath'', JStr ''/var/www/html/data/u/files/x/a'')],
                                       JDict [(''filePath'', JStr ''/var/www/html/data/u/files/y/a'')]])]])]"

definition files_u :: "string list" where
  "files_u = [''var'', ''www'', ''html'', ''data'', ''u'', ''files'']"

definition report_group :: MatchSet where
  "report_group = \<lparr>ms_id = 0, file_size = JInt 2048,
                    file_list = [Path Root (files_u @ [''x'', ''a'']),
                                 Path Root (files_u @ [''y'', ''a''])]\<rparr>"

definition report_output :: JDupesOutput where
  "report_output =
     \<lparr>nextcloud_info = example_info, version = JStr ''1.21.0'', version_date = (2022, 9, 3),
      command_line = JStr ''jdupes -j -r /var/www/html/data/u/files'',
      extension_flags = JStr ''none'',
      match_sets = [report_group],
      folder_cache = create_folder_cache [report_group]\<rparr>"

definition report_env :: Env where
  "report_env =
     \<lparr>iterdir = (\<lambda>p. if p = Path Root (files_u @ [''x''])
                       then Some [Path Root (files_u @ [''x'', ''a'']),
                                  Path Root (files_u @ [''x'', ''n''])]
                     else if p = Path Root (files_u @ [''y''])
                       then Some [Path Root (files_u @ [''y'', ''a''])]
                     else None),
      is_dir = (\<lambda>p. p = Path NoRoot [''x''] \<or> p = Path NoRoot [''y'']),
      quote = (\<lambda>s. s),
      frozenset_iter = (\<lambda>s. filter (\<lambda>p. p \<in> s)
                                [Path Root (files_u @ [''x'', ''a'']),
                                 Path Root (files_u @ [''y'', ''a''])]),
      folders_iter = (\<lambda>xs. xs),
      entries_iter = (\<lambda>ds. ds)\<rparr>"

text \<open>The text of the report, character by character (0x0A is the line feed).\<close>

definition report_markdown :: string where
  "report_markdown =
     ''# Duplikate von u'' @ [CHR 0x0A] @
     ''Es gibt 1 Duplikate in 2 Ordnern.  '' @ [CHR 0x0A] @
     ''Diese sind insgesamt 2  KB gro'' @ [CHR 0xDF] @ ''.'' @ [CHR 0x0A] @
     ''## Alle Ordner mit Duplikaten'' @ [CHR 0x0A] @
     ''## Ordner mit Duplikaten: [y](https://cloud.example/apps/files/?dir=/y)'' @ [CHR 0x0A] @
     ''Die Duplikate in diesem Ordner sind 2  KB gro'' @ [CHR 0xDF] @ ''  '' @ [CHR 0x0A] @
     ''Dieser Ordner enth'' @ [CHR 0xE4] @ ''lt nur Duplikate  '' @ [CHR 0x0A] @
     ''### Duplizierte Dateien:'' @ [CHR 0x0A] @
     ''- y/a  '' @ [CHR 0x0A] @
     [CHR 0x09] @ ''Gr'' @ [CHR 0xF6, CHR 0xDF] @ ''e: 2  KB  '' @ [CHR 0x0A] @
     [CHR 0x09] @ ''Andere(r) Ordner:  '' @ [CHR 0x0A] @
     [CHR 0x09] @ ''- [x](https://cloud.example/apps/files/?dir=/x)/a  '' @ [CHR 0x0A] @
     ''## Ordner mit Duplikaten: [x](https://cloud.example/apps/files/?dir=/x)'' @ [CHR 0x0A] @
     ''Die Duplikate in diesem Ordner sind 2  KB gro'' @ [CHR 0xDF] @ ''  '' @ [CHR 0x0A] @
     ''### Duplizierte Dateien:'' @ [CHR 0x0A] @
     ''- x/a  '' @ [CHR 0x0A] @
     [CHR 0x09] @ ''Gr'' @ [CHR 0xF6, CHR 0xDF] @ ''e: 2  KB  '' @ [CHR 0x0A] @
     [CHR 0x09] @ ''Andere(r) Ordner:  '' @ [CHR 0x0A] @
     [CHR 0x09] @ ''- [y](https://cloud.example/apps/files/?dir=/y)/a  '' @ [CHR 0x0A] @
     ''### Nicht duplizierte Dateien'' @ [CHR 0x0A] @
     ''- x/n''"

subsection \<open>The size format, in the words of the specification\<close>

text \<open>
  How often a value is divided by 1024: as long as the value divided so far,
  \<open>x / 1024 ^ i\<close>, is at least 1024 and a larger unit remains.
\<close>

function divisions :: "int \<Rightarrow> nat \<Rightarrow> nat" where
  "divisions x i = (if 1024 * 1024 ^ i \<le> x \<and> i < 5 then divisions x (i + 1) else i)"
  by pat_completeness auto
termination
  by (relation "measure (\<lambda>(x, i). 5 - i)") auto

declare divisions.simps [simp del]

text \<open>A number of hundredths, written with two decimals.\<close>

definition two_decimals :: "int \<Rightarrow> string" where
  "two_decimals h = str_of_nat (h div 100) @ ''.'' @ [digit (h mod 100 div 10), digit (h mod 10)]"

text \<open>
  The format of a non-negative value \<open>x\<close>: divided by 1024 as often as \<open>divisions\<close> says,
  rounded to hundredths, written with two decimals, without trailing zeros and without a
  trailing point, followed by two blanks and the unit.
\<close>

definition format_size :: "int \<Rightarrow> string" where
  "format_size x =
     (let i = divisions x 0; h = round_half_even (100 * x) (1024 ^ i)
      in rstrip CHR ''.'' (rstrip CHR ''0'' (two_decimals h)) @ ''  '' @
         [''B'', ''KB'', ''MB'', ''GB'', ''TB'', ''PB''] ! i)"

section \<open>Verification\<close>

subsection \<open>Sets kept as lists\<close>

lemma set_set_add: "set (set_add x xs) = insert x (set xs)"
  by (auto simp: set_add_def)

lemma distinct_set_add: "distinct xs \<Longrightarrow> distinct (set_add x xs)"
  by (simp add: set_add_def)

lemma distinct_count_list_le1: "distinct xs \<Longrightarrow> count_list xs x \<le> 1"
  by (induction xs) (auto simp: count_list_0_iff)

subsection \<open>The example, evaluated\<close>

lemma Path_of_str_examples:
  "Path_of_str ''/d1/a'' = Path Root [''d1'', ''a'']"
  "Path_of_str ''/d1/b'' = Path Root [''d1'', ''b'']"
  "Path_of_str ''/d2/a'' = Path Root [''d2'', ''a'']"
  "Path_of_str ''/d2/c'' = Path Root [''d2'', ''c'']"
  "Path_of_str ''/d2/d'' = Path Root [''d2'', ''d'']"
  by (simp_all add: Path_of_str_def path_parts_def)

lemma example_built:
  "JDupesOutput_init example_date example_info example_json = Inr example_output"
  by (simp add: JDupesOutput_init_def example_json_def example_date_def get_matchsets_def
      MatchSet_init_def get_file_list_def Path_of_str_examples set_add_def example_output_def
      group_A_def group_B_def)

lemma example_cache:
  "folder_cache example_output (Path Root [''d1'']) = Some [group_A]"
  "folder_cache example_output (Path Root [''d2'']) = Some [group_A, group_B]"
  "folder_cache example_output (Path Root [''d3'']) = None"
  by (simp_all add: example_output_def create_folder_cache_def directory_list_def cache_add_def
      set_add_def parent_def group_A_def group_B_def)

lemma example_duplicates:
  "duplicates_in_folder example_output (Path Root [''d1'']) =
     Inr [entry_of group_A (Path Root [''d1'', ''a'']), entry_of group_A (Path Root [''d1'', ''b''])]"
  "duplicates_in_folder example_output (Path Root [''d2'']) =
     Inr [entry_of group_A (Path Root [''d2'', ''a'']), entry_of group_B (Path Root [''d2'', ''c'']),
          entry_of group_B (Path Root [''d2'', ''d''])]"
  by (simp_all add: duplicates_in_folder_def example_cache duplicate_of_def set_remove_def
      parent_def add_entry_def entry_key_def entry_of_def group_A_def group_B_def)

subsection \<open>The folder index\<close>

lemma cached_cache_add:
  "cached (cache_add g d r) f = (if f = d then insert g (cached r f) else cached r f)"
  by (auto simp: cached_def cache_add_def set_set_add split: option.splits)

lemma dom_cache_add: "dom (cache_add g d r) = insert d (dom r)"
  by (auto simp: cache_add_def split: option.splits)

lemma cache_ok_cache_add: "cache_ok r \<Longrightarrow> cache_ok (cache_add g d r)"
  by (auto simp: cache_ok_def cache_add_def set_add_def split: option.splits if_splits)

lemma cached_inner:
  "cached (fold (cache_add g) ds r) f = (if f \<in> set ds then insert g (cached r f) else cached r f)"
  by (induction ds arbitrary: r) (auto simp: cached_cache_add)

lemma dom_inner: "dom (fold (cache_add g) ds r) = set ds \<union> dom r"
  by (induction ds arbitrary: r) (auto simp: dom_cache_add)

lemma cache_ok_inner: "cache_ok r \<Longrightarrow> cache_ok (fold (cache_add g) ds r)"
  by (induction ds arbitrary: r) (auto simp: cache_ok_cache_add)

lemma cached_outer:
  "cached (fold (\<lambda>match_set result. fold (cache_add match_set) (directory_list match_set) result)
             ms r) f
     = cached r f \<union> {g \<in> set ms. f \<in> set (directory_list g)}"
  by (induction ms arbitrary: r) (auto simp: cached_inner)

lemma dom_outer:
  "dom (fold (\<lambda>match_set result. fold (cache_add match_set) (directory_list match_set) result)
          ms r)
     = dom r \<union> (\<Union>g\<in>set ms. set (directory_list g))"
  by (induction ms arbitrary: r) (auto simp: dom_inner)

lemma cache_ok_outer:
  "cache_ok r \<Longrightarrow>
   cache_ok (fold (\<lambda>match_set result. fold (cache_add match_set) (directory_list match_set) result)
               ms r)"
  by (induction ms arbitrary: r) (auto simp: cache_ok_inner)

lemma cached_create:
  "cached (create_folder_cache ms) f = {g \<in> set ms. f \<in> set (directory_list g)}"
  by (simp add: create_folder_cache_def cached_outer) (simp add: cached_def)

lemma dom_create: "dom (create_folder_cache ms) = (\<Union>g\<in>set ms. set (directory_list g))"
  by (simp add: create_folder_cache_def dom_outer)

lemma cache_ok_create: "cache_ok (create_folder_cache ms)"
  unfolding create_folder_cache_def by (rule cache_ok_outer) (simp add: cache_ok_def)

lemma create_folder_cache_None:
  "create_folder_cache ms f = None \<longleftrightarrow>
     \<not> (\<exists>g \<in> set ms. \<exists>p \<in> set (file_list g). parent p = f)"
proof -
  have "create_folder_cache ms f = None \<longleftrightarrow> f \<notin> dom (create_folder_cache ms)"
    by (simp add: domIff)
  then show ?thesis
    by (simp add: dom_create directory_list_def) blast
qed

lemma create_folder_cache_Some:
  assumes "create_folder_cache ms f = Some gs"
  shows "distinct gs" and "set gs = {g \<in> set ms. \<exists>p \<in> set (file_list g). parent p = f}"
proof -
  show "distinct gs"
    using assms cache_ok_create [of ms] by (simp add: cache_ok_def)
  show "set gs = {g \<in> set ms. \<exists>p \<in> set (file_list g). parent p = f}"
    using cached_create [of ms f] assms by (auto simp: cached_def directory_list_def)
qed

text \<open>
  C3. Building the index associates a folder with a group at most once, also when the
  group has several members in the folder (the list kept for the folder has no
  repetition); a folder is indexed exactly when some group has a member whose parent it
  is; and the lookup of an indexed folder \<open>f\<close> is exactly the set of the groups with at
  least one member whose parent directory is \<open>f\<close>.
\<close>

theorem folder_cache_lookup:
  "(create_folder_cache ms f = None \<longleftrightarrow>
      \<not> (\<exists>g \<in> set ms. \<exists>p \<in> set (file_list g). parent p = f)) \<and>
   (\<forall>gs. create_folder_cache ms f = Some gs \<longrightarrow>
      distinct gs \<and> (\<forall>g. count_list gs g \<le> 1) \<and>
      set gs = {g \<in> set ms. \<exists>p \<in> set (file_list g). parent p = f})"
proof (intro conjI allI impI)
  show "create_folder_cache ms f = None \<longleftrightarrow>
          \<not> (\<exists>g \<in> set ms. \<exists>p \<in> set (file_list g). parent p = f)"
    by (rule create_folder_cache_None)
next
  fix gs g
  assume a: "create_folder_cache ms f = Some gs"
  then show d: "distinct gs"
    by (rule create_folder_cache_Some(1))
  from d show "count_list gs g \<le> 1"
    by (rule distinct_count_list_le1)
  from a show "set gs = {g \<in> set ms. \<exists>p \<in> set (file_list g). parent p = f}"
    by (rule create_folder_cache_Some(2))
qed

theorem folder_cache_lookup_witness:
  "create_folder_cache [group_A, group_B] (Path Root [''d1'']) = Some [group_A] \<and>
   count_list [group_A] group_A \<le> 1 \<and>
   card {p \<in> set (file_list group_A). parent p = Path Root [''d1'']} = 2 \<and>
   set [group_A] =
     {g \<in> set [group_A, group_B]. \<exists>p \<in> set (file_list g). parent p = Path Root [''d1'']}"
proof -
  have c: "create_folder_cache [group_A, group_B] (Path Root [''d1'']) = Some [group_A]"
    using example_cache(1) by (simp add: example_output_def)
  have "{p \<in> set (file_list group_A). parent p = Path Root [''d1'']} =
          {Path Root [''d1'', ''a''], Path Root [''d1'', ''b'']}"
    by (auto simp: group_A_def parent_def)
  then have k: "card {p \<in> set (file_list group_A). parent p = Path Root [''d1'']} = 2"
    by simp
  from folder_cache_lookup [of "[group_A, group_B]" "Path Root [''d1'']"] c k
  show ?thesis by simp
qed

subsection \<open>The per-folder analysis\<close>

lemma duplicate_of_member:
  "m \<in> set (file_list g) \<Longrightarrow> duplicate_of g m = Inr (entry_of g m)"
  by (simp add: duplicate_of_def set_remove_def entry_of_def)

lemma is_JInt_iff: "is_JInt v \<longleftrightarrow> (\<exists>n. v = JInt n)"
  by (cases v) simp_all

lemma entry_key_inj:
  assumes "is_JInt (size_dup d)" and "is_JInt (size_dup e)" and "entry_key d = entry_key e"
  shows "d = e"
  using assms by (cases d, cases e) (auto simp: entry_key_def is_JInt_iff)

text \<open>With integer sizes, \<^verbatim>\<open>result.add\<close> neither raises nor merges different entries.\<close>

lemma add_entry_int:
  assumes "is_JInt (size_dup d)" and "\<forall>e \<in> set result. is_JInt (size_dup e)"
  shows "add_entry d result = Inr (set_add d result)"
proof -
  from assms(1) have h: "hashable (size_dup d)" by (auto simp: is_JInt_iff)
  have "entry_key d \<in> entry_key ` set result \<longleftrightarrow> d \<in> set result"
    using assms by (auto dest: entry_key_inj)
  with h show ?thesis by (simp add: add_entry_def set_add_def)
qed

lemma add_entry_Inl: "add_entry d result = Inl e \<Longrightarrow> e = TypeError"
  by (auto simp: add_entry_def split: if_splits)

lemma inner_loop:
  assumes "set fs \<subseteq> set (file_list g)" and "is_JInt (file_size g)"
    and "\<forall>e \<in> set res. is_JInt (size_dup e)"
  shows "\<exists>res'. foldM (\<lambda>file_path result.
                  if parent file_path = folder
                  then (case duplicate_of g file_path of
                          Inl e \<Rightarrow> Inl e
                        | Inr d \<Rightarrow> add_entry d result)
                  else Inr result) fs res = Inr res' \<and>
          set res' = set res \<union> entry_of g ` {m \<in> set fs. parent m = folder} \<and>
          (\<forall>e \<in> set res'. is_JInt (size_dup e)) \<and>
          (distinct res \<longrightarrow> distinct res')"
  using assms(1,3)
proof (induction fs arbitrary: res)
  case Nil
  then show ?case by simp
next
  case (Cons m fs)
  from Cons.prems have m: "m \<in> set (file_list g)" and fs: "set fs \<subseteq> set (file_list g)" by auto
  show ?case
  proof (cases "parent m = folder")
    case True
    from assms(2) have i: "is_JInt (size_dup (entry_of g m))" by (simp add: entry_of_def)
    from i Cons.prems(2) have a: "add_entry (entry_of g m) res = Inr (set_add (entry_of g m) res)"
      by (rule add_entry_int)
    from i Cons.prems(2) have n: "\<forall>e \<in> set (set_add (entry_of g m) res). is_JInt (size_dup e)"
      by (simp add: set_set_add)
    from Cons.IH [OF fs n] True m a show ?thesis
      by (auto simp: duplicate_of_member set_set_add distinct_set_add)
  next
    case False
    from Cons.IH [OF fs Cons.prems(2)] False show ?thesis
      by auto
  qed
qed

lemma outer_loop:
  assumes "\<forall>g \<in> set gs. is_JInt (file_size g)" and "\<forall>e \<in> set res. is_JInt (size_dup e)"
  shows "\<exists>res'. foldM (\<lambda>match_set result.
                  foldM (\<lambda>file_path result.
                          if parent file_path = folder
                          then (case duplicate_of match_set file_path of
                                  Inl e \<Rightarrow> Inl e
                                | Inr d \<Rightarrow> add_entry d result)
                          else Inr result)
                    (file_list match_set) result) gs res = Inr res' \<and>
          set res' = set res \<union> (\<Union>g\<in>set gs. entry_of g ` members_in g folder) \<and>
          (\<forall>e \<in> set res'. is_JInt (size_dup e)) \<and>
          (distinct res \<longrightarrow> distinct res')"
  using assms
proof (induction gs arbitrary: res)
  case Nil
  then show ?case by simp
next
  case (Cons g gs)
  from Cons.prems(1) have g: "is_JInt (file_size g)" and gs: "\<forall>g \<in> set gs. is_JInt (file_size g)"
    by simp_all
  from inner_loop [of "file_list g" g res folder, OF _ g Cons.prems(2)] obtain r1 where
    r1: "foldM (\<lambda>file_path result.
                  if parent file_path = folder
                  then (case duplicate_of g file_path of
                          Inl e \<Rightarrow> Inl e
                        | Inr d \<Rightarrow> add_entry d result)
                  else Inr result) (file_list g) res = Inr r1"
    and s1: "set r1 = set res \<union> entry_of g ` members_in g folder"
    and i1: "\<forall>e \<in> set r1. is_JInt (size_dup e)"
    and d1: "distinct res \<longrightarrow> distinct r1" by (auto simp: members_in_def)
  from Cons.IH [OF gs i1] r1 s1 d1 show ?case by auto
qed

lemma duplicates_in_folder_cached:
  assumes "folder_cache self folder = Some gs" and "\<forall>g \<in> set gs. is_JInt (file_size g)"
  shows "\<exists>es. duplicates_in_folder self folder = Inr es \<and> distinct es \<and>
              set es = (\<Union>g\<in>set gs. entry_of g ` members_in g folder)"
  using outer_loop [of gs "[]" folder] assms by (auto simp: duplicates_in_folder_def)

text \<open>Whatever the sizes are, an indexed folder can only end in the \<^verbatim>\<open>TypeError\<close> of a hash.\<close>

lemma inner_loop_Inl:
  assumes "set fs \<subseteq> set (file_list g)"
    and "foldM (\<lambda>file_path result.
                  if parent file_path = folder
                  then (case duplicate_of g file_path of
                          Inl e \<Rightarrow> Inl e
                        | Inr d \<Rightarrow> add_entry d result)
                  else Inr result) fs res = Inl e"
  shows "e = TypeError"
  using assms
proof (induction fs arbitrary: res)
  case Nil
  then show ?case by simp
next
  case (Cons m fs)
  from Cons.prems(1) have m: "m \<in> set (file_list g)" and fs: "set fs \<subseteq> set (file_list g)" by auto
  from Cons.prems(2) Cons.IH [OF fs] m show ?case
    by (auto simp: duplicate_of_member split: if_splits sum.splits dest: add_entry_Inl)
qed

lemma outer_loop_Inl:
  assumes "foldM (\<lambda>match_set result.
                  foldM (\<lambda>file_path result.
                          if parent file_path = folder
                          then (case duplicate_of match_set file_path of
                                  Inl e \<Rightarrow> Inl e
                                | Inr d \<Rightarrow> add_entry d result)
                          else Inr result)
                    (file_list match_set) result) gs res = Inl e"
  shows "e = TypeError"
  using assms
proof (induction gs arbitrary: res)
  case Nil
  then show ?case by simp
next
  case (Cons g gs)
  show ?case
  proof (cases "foldM (\<lambda>file_path result.
                  if parent file_path = folder
                  then (case duplicate_of g file_path of
                          Inl e \<Rightarrow> Inl e
                        | Inr d \<Rightarrow> add_entry d result)
                  else Inr result) (file_list g) res")
    case (Inl e')
    with Cons.prems have "e = e'" by simp
    with inner_loop_Inl [OF _ Inl] show ?thesis by simp
  next
    case (Inr r1)
    with Cons.prems Cons.IH [of r1] show ?thesis by simp
  qed
qed

lemma duplicates_in_folder_Inl:
  assumes "duplicates_in_folder self folder = Inl e"
  shows "(folder_cache self folder = None \<and> e = KeyError_Path folder) \<or>
         (folder_cache self folder \<noteq> None \<and> e = TypeError)"
  using assms by (auto simp: duplicates_in_folder_def split: option.splits dest: outer_loop_Inl)

lemma inj_on_entry_of: "inj_on (entry_of g) A"
  by (rule inj_onI) (simp add: entry_of_def)

lemma finite_members_in: "finite (members_in g folder)"
  by (simp add: members_in_def)

lemma card_entries: "card (entry_of g ` members_in g folder) = card (members_in g folder)"
  by (rule card_image) (rule inj_on_entry_of)

text \<open>Groups without a common file have no common entry.\<close>

lemma entries_disjoint:
  assumes "set (file_list g) \<inter> set (file_list g') = {}"
  shows "entry_of g ` members_in g folder \<inter> entry_of g' ` members_in g' folder = {}"
  using assms by (auto simp: entry_of_def members_in_def)

lemma card_entries_disjoint:
  assumes "\<forall>g \<in> set gs. \<forall>g' \<in> set gs. g \<noteq> g' \<longrightarrow> set (file_list g) \<inter> set (file_list g') = {}"
  shows "card (\<Union>g\<in>set gs. entry_of g ` members_in g folder)
           = (\<Sum>g \<in> set gs. card (members_in g folder))"
proof -
  have "card (\<Union>g\<in>set gs. entry_of g ` members_in g folder)
          = (\<Sum>g \<in> set gs. card (entry_of g ` members_in g folder))"
  proof (rule card_UN_disjoint)
    show "finite (set gs)" by simp
    show "\<forall>g \<in> set gs. finite (entry_of g ` members_in g folder)"
      by (simp add: finite_members_in)
    show "\<forall>g \<in> set gs. \<forall>g' \<in> set gs. g \<noteq> g' \<longrightarrow>
            entry_of g ` members_in g folder \<inter> entry_of g' ` members_in g' folder = {}"
      using assms by (auto intro!: entries_disjoint)
  qed
  then show ?thesis by (simp add: card_entries)
qed

text \<open>
  C1. For a folder present in the index whose groups have integer sizes,
  \<^verbatim>\<open>duplicates_in_folder\<close> returns without an exception, and the set it returns holds
  exactly the entries of the pairs of a group indexed for the folder and a member of that
  group whose parent is the folder: file the member, other copies the group's members
  without that member, size the group's size. Each indexed group has as many entries in
  the result as it has members in the folder, and when no two indexed groups have a file
  in common, the result has one entry for each pair. Hence no entry's file is among its
  other copies, and the file together with the other copies is the member set of an
  indexed group that has a member in the folder.
\<close>

theorem duplicates_in_folder_entries:
  assumes "folder_cache self folder = Some gs"
    and "\<forall>g \<in> set gs. is_JInt (file_size g)"
  shows "\<exists>es. duplicates_in_folder self folder = Inr es \<and> distinct es \<and>
           set es = {\<lparr>in_duplicate_folder = m, other_paths = set (file_list g) - {m},
                      size_dup = file_size g\<rparr> | g m.
                     g \<in> set gs \<and> m \<in> set (file_list g) \<and> parent m = folder} \<and>
           (\<forall>g \<in> set gs.
              card {e \<in> set es. \<exists>m \<in> set (file_list g). parent m = folder \<and>
                      e = \<lparr>in_duplicate_folder = m, other_paths = set (file_list g) - {m},
                            size_dup = file_size g\<rparr>}
                = card {m \<in> set (file_list g). parent m = folder}) \<and>
           ((\<forall>g \<in> set gs. \<forall>g' \<in> set gs.
               g \<noteq> g' \<longrightarrow> set (file_list g) \<inter> set (file_list g') = {}) \<longrightarrow>
            length es = (\<Sum>g \<in> set gs. card {m \<in> set (file_list g). parent m = folder})) \<and>
           (\<forall>e \<in> set es.
              in_duplicate_folder e \<notin> other_paths e \<and>
              (\<exists>g \<in> set gs. (\<exists>m \<in> set (file_list g). parent m = folder) \<and>
                 insert (in_duplicate_folder e) (other_paths e) = set (file_list g)))"
proof -
  from duplicates_in_folder_cached [OF assms] obtain es where
    es: "duplicates_in_folder self folder = Inr es" and d: "distinct es"
    and s: "set es = (\<Union>g\<in>set gs. entry_of g ` members_in g folder)" by blast
  have s': "set es = {\<lparr>in_duplicate_folder = m, other_paths = set (file_list g) - {m},
                      size_dup = file_size g\<rparr> | g m.
                     g \<in> set gs \<and> m \<in> set (file_list g) \<and> parent m = folder}"
    unfolding s by (auto simp: entry_of_def members_in_def)
  have c: "card {e \<in> set es. \<exists>m \<in> set (file_list g). parent m = folder \<and>
                      e = \<lparr>in_duplicate_folder = m, other_paths = set (file_list g) - {m},
                            size_dup = file_size g\<rparr>}
                = card {m \<in> set (file_list g). parent m = folder}" if g: "g \<in> set gs" for g
  proof -
    have "{e \<in> set es. \<exists>m \<in> set (file_list g). parent m = folder \<and>
                      e = \<lparr>in_duplicate_folder = m, other_paths = set (file_list g) - {m},
                            size_dup = file_size g\<rparr>} = entry_of g ` members_in g folder"
      using g unfolding s by (auto simp: entry_of_def members_in_def)
    then show ?thesis
      using card_entries [of g folder] by (simp add: members_in_def)
  qed
  have l: "length es = (\<Sum>g \<in> set gs. card {m \<in> set (file_list g). parent m = folder})"
    if "\<forall>g \<in> set gs. \<forall>g' \<in> set gs. g \<noteq> g' \<longrightarrow> set (file_list g) \<inter> set (file_list g') = {}"
  proof -
    from d have "length es = card (set es)" by (simp add: distinct_card)
    also have "\<dots> = (\<Sum>g \<in> set gs. card (members_in g folder))"
      unfolding s using that by (rule card_entries_disjoint)
    finally show ?thesis by (simp add: members_in_def)
  qed
  have p: "in_duplicate_folder e \<notin> other_paths e \<and>
              (\<exists>g \<in> set gs. (\<exists>m \<in> set (file_list g). parent m = folder) \<and>
                 insert (in_duplicate_folder e) (other_paths e) = set (file_list g))"
    if e: "e \<in> set es" for e
  proof -
    from e s obtain g m where g: "g \<in> set gs" and m: "m \<in> members_in g folder"
      and ee: "e = entry_of g m" by auto
    from m have "m \<in> set (file_list g)" "parent m = folder" by (auto simp: members_in_def)
    with g ee show ?thesis by (auto simp: entry_of_def)
  qed
  from es d s' c l p show ?thesis by blast
qed

theorem duplicates_in_folder_entries_witness:
  "folder_cache example_output (Path Root [''d1'']) = Some [group_A] \<and>
   is_JInt (file_size group_A) \<and>
   duplicates_in_folder example_output (Path Root [''d1'']) =
     Inr [\<lparr>in_duplicate_folder = Path Root [''d1'', ''a''],
           other_paths = {Path Root [''d1'', ''b''], Path Root [''d2'', ''a'']},
           size_dup = JInt 100\<rparr>,
          \<lparr>in_duplicate_folder = Path Root [''d1'', ''b''],
           other_paths = {Path Root [''d1'', ''a''], Path Root [''d2'', ''a'']},
           size_dup = JInt 100\<rparr>] \<and>
   card {m \<in> set (file_list group_A). parent m = Path Root [''d1'']} = 2 \<and>
   (\<Sum>g \<in> set [group_A]. card {m \<in> set (file_list g). parent m = Path Root [''d1'']}) = 2"
proof -
  let ?e1 = "\<lparr>in_duplicate_folder = Path Root [''d1'', ''a''],
           other_paths = {Path Root [''d1'', ''b''], Path Root [''d2'', ''a'']},
           size_dup = JInt 100\<rparr>"
  let ?e2 = "\<lparr>in_duplicate_folder = Path Root [''d1'', ''b''],
           other_paths = {Path Root [''d1'', ''a''], Path Root [''d2'', ''a'']},
           size_dup = JInt 100\<rparr>"
  have i: "is_JInt (file_size group_A)" by (simp add: group_A_def)
  then have w: "\<forall>g \<in> set [group_A]. is_JInt (file_size g)" by simp
  have e1: "entry_of group_A (Path Root [''d1'', ''a'']) = ?e1"
    by (auto simp: entry_of_def group_A_def)
  have e2: "entry_of group_A (Path Root [''d1'', ''b'']) = ?e2"
    by (auto simp: entry_of_def group_A_def)
  have e: "duplicates_in_folder example_output (Path Root [''d1'']) = Inr [?e1, ?e2]"
    unfolding example_duplicates(1) e1 e2 ..
  have dj: "\<forall>g \<in> set [group_A]. \<forall>g' \<in> set [group_A].
               g \<noteq> g' \<longrightarrow> set (file_list g) \<inter> set (file_list g') = {}" by simp
  from duplicates_in_folder_entries [OF example_cache(1) w] obtain es where
    es: "duplicates_in_folder example_output (Path Root [''d1'']) = Inr es"
    and r: "distinct es \<and>
           set es = {\<lparr>in_duplicate_folder = m, other_paths = set (file_list g) - {m},
                      size_dup = file_size g\<rparr> | g m.
                     g \<in> set [group_A] \<and> m \<in> set (file_list g) \<and> parent m = Path Root [''d1'']} \<and>
           (\<forall>g \<in> set [group_A].
              card {e \<in> set es. \<exists>m \<in> set (file_list g). parent m = Path Root [''d1''] \<and>
                      e = \<lparr>in_duplicate_folder = m, other_paths = set (file_list g) - {m},
                            size_dup = file_size g\<rparr>}
                = card {m \<in> set (file_list g). parent m = Path Root [''d1'']}) \<and>
           ((\<forall>g \<in> set [group_A]. \<forall>g' \<in> set [group_A].
               g \<noteq> g' \<longrightarrow> set (file_list g) \<inter> set (file_list g') = {}) \<longrightarrow>
            length es = (\<Sum>g \<in> set [group_A]. card {m \<in> set (file_list g). parent m = Path Root [''d1'']})) \<and>
           (\<forall>e \<in> set es.
              in_duplicate_folder e \<notin> other_paths e \<and>
              (\<exists>g \<in> set [group_A]. (\<exists>m \<in> set (file_list g). parent m = Path Root [''d1'']) \<and>
                 insert (in_duplicate_folder e) (other_paths e) = set (file_list g)))"
    by (elim exE conjE) (rule that, assumption, intro conjI, assumption+)
  from es e have es2: "es = [?e1, ?e2]" by simp
  note c = r [THEN conjunct2, THEN conjunct2, THEN conjunct1]
  note l = r [THEN conjunct2, THEN conjunct2, THEN conjunct2, THEN conjunct1]
  from l dj have "length es = (\<Sum>g \<in> set [group_A]. card {m \<in> set (file_list g). parent m = Path Root [''d1'']})"
    by (rule mp)
  then have s2: "(\<Sum>g \<in> set [group_A]. card {m \<in> set (file_list g). parent m = Path Root [''d1'']}) = 2"
    unfolding es2 by simp
  from c have c': "card {e \<in> set es. \<exists>m \<in> set (file_list group_A). parent m = Path Root [''d1''] \<and>
                      e = \<lparr>in_duplicate_folder = m, other_paths = set (file_list group_A) - {m},
                            size_dup = file_size group_A\<rparr>}
                = card {m \<in> set (file_list group_A). parent m = Path Root [''d1'']}"
    by simp
  have "{e \<in> set es. \<exists>m \<in> set (file_list group_A). parent m = Path Root [''d1''] \<and>
                      e = \<lparr>in_duplicate_folder = m, other_paths = set (file_list group_A) - {m},
                            size_dup = file_size group_A\<rparr>} = {?e1, ?e2}"
    unfolding es2 e1 [symmetric] e2 [symmetric]
    by (auto simp: entry_of_def group_A_def parent_def)
  moreover have "?e1 \<noteq> ?e2" by simp
  ultimately have "card {m \<in> set (file_list group_A). parent m = Path Root [''d1'']} = 2"
    using c' by simp
  with e i example_cache(1) s2 show ?thesis by (intro conjI)
qed

subsection \<open>Built objects\<close>

lemma init_fields:
  assumes "JDupesOutput_init fromisoformat info json_data = Inr self"
  shows "folder_cache self = create_folder_cache (match_sets self)"
    and "get_matchsets json_data = Inr (match_sets self)"
    and "nextcloud_info self = info"
  using assms by (auto simp: JDupesOutput_init_def split: sum.splits)

lemma set_folders_inner:
  "set (fold (\<lambda>file_path result. set_add (parent file_path) result) fs acc)
     = set acc \<union> parent ` set fs"
  by (induction fs arbitrary: acc) (auto simp: set_set_add)

lemma set_folders_outer:
  "set (fold (\<lambda>match_set result.
               fold (\<lambda>file_path result. set_add (parent file_path) result)
                 (file_list match_set) result) ms acc)
     = set acc \<union> (\<Union>g\<in>set ms. parent ` set (file_list g))"
  by (induction ms arbitrary: acc) (auto simp: set_folders_inner)

lemma set_folders_with_duplicates:
  "set (folders_with_duplicates self) = (\<Union>g\<in>set (match_sets self). parent ` set (file_list g))"
  by (simp add: folders_with_duplicates_def set_folders_outer)

lemma distinct_folders_inner:
  "distinct acc \<Longrightarrow> distinct (fold (\<lambda>file_path result. set_add (parent file_path) result) fs acc)"
  by (induction fs arbitrary: acc) (auto simp: distinct_set_add)

lemma distinct_folders_outer:
  "distinct acc \<Longrightarrow>
   distinct (fold (\<lambda>match_set result.
               fold (\<lambda>file_path result. set_add (parent file_path) result)
                 (file_list match_set) result) ms acc)"
  by (induction ms arbitrary: acc) (auto simp: distinct_folders_inner)

lemma distinct_folders_with_duplicates: "distinct (folders_with_duplicates self)"
  by (simp add: folders_with_duplicates_def distinct_folders_outer)

lemma folders_eq_dom:
  assumes "folder_cache self = create_folder_cache (match_sets self)"
  shows "set (folders_with_duplicates self) = dom (folder_cache self)"
  by (simp add: assms set_folders_with_duplicates dom_create directory_list_def)

text \<open>
  C5. Looking up a folder that was never indexed raises: when no group of a built
  \<^verbatim>\<open>JDupesOutput\<close> has a member whose parent is the folder, the folder is not a key of the
  cache and \<^verbatim>\<open>duplicates_in_folder\<close> ends in the \<^verbatim>\<open>KeyError\<close> of the lookup; it does not
  return an empty set.
\<close>

theorem lookup_unindexed_folder_fails:
  assumes "JDupesOutput_init fromisoformat info json_data = Inr self"
    and "\<not> (\<exists>g \<in> set (match_sets self). \<exists>p \<in> set (file_list g). parent p = folder)"
  shows "folder_cache self folder = None \<and>
         duplicates_in_folder self folder = Inl (KeyError_Path folder) \<and>
         duplicates_in_folder self folder \<noteq> Inr []"
proof -
  from assms(2) have "folder_cache self folder = None"
    by (simp add: init_fields(1) [OF assms(1)] create_folder_cache_None)
  then show ?thesis by (simp add: duplicates_in_folder_def)
qed

theorem lookup_unindexed_folder_fails_witness:
  "JDupesOutput_init example_date example_info example_json = Inr example_output \<and>
   \<not> (\<exists>g \<in> set (match_sets example_output). \<exists>p \<in> set (file_list g). parent p = Path Root [''d3'']) \<and>
   duplicates_in_folder example_output (Path Root [''d3'']) = Inl (KeyError_Path (Path Root [''d3'']))"
proof -
  have n: "\<not> (\<exists>g \<in> set (match_sets example_output). \<exists>p \<in> set (file_list g). parent p = Path Root [''d3''])"
    by (simp add: example_output_def group_A_def group_B_def parent_def)
  from lookup_unindexed_folder_fails [OF example_built n] example_built n
  show ?thesis by simp
qed

subsection \<open>Which exceptions the parts of the report raise\<close>

lemma foldM_Inl:
  "foldM f xs acc = Inl e \<Longrightarrow> \<exists>x \<in> set xs. \<exists>a. f x a = Inl e"
  by (induction xs arbitrary: acc) (auto split: sum.splits)

lemma py_sum_aux:
  "foldM (\<lambda>x acc. case x of
                       JInt n \<Rightarrow> Inr (acc + n)
                     | JBool b \<Rightarrow> Inr (acc + (if b then 1 else 0))
                     | _ \<Rightarrow> Inl TypeError) xs a
     = (if \<forall>x \<in> set xs. as_int x \<noteq> None then Inr (a + sum_list (map (\<lambda>x. the (as_int x)) xs))
        else Inl TypeError)"
proof (induction xs arbitrary: a)
  case Nil
  then show ?case by simp
next
  case (Cons x xs)
  then show ?case by (cases x) (simp_all add: add.assoc)
qed

lemma py_sum_eq:
  "py_sum xs = (if \<forall>x \<in> set xs. as_int x \<noteq> None then Inr (sum_list (map (\<lambda>x. the (as_int x)) xs))
                else Inl TypeError)"
  by (simp add: py_sum_def py_sum_aux)

lemma float_of_int_Inl: "float_of_int n = Inl e \<Longrightarrow> e = OverflowError"
  by (auto simp: float_of_int_def Let_def split: if_splits)

lemma truediv_1024_Inl: "truediv_1024 x = Inl e \<Longrightarrow> e = OverflowError"
proof (cases x)
  case (PyInt n)
  assume "truediv_1024 x = Inl e"
  with PyInt show ?thesis
    by (auto split: sum.splits float.splits dest: float_of_int_Inl)
next
  case (PyFloat f)
  assume "truediv_1024 x = Inl e"
  with PyFloat show ?thesis by (cases f) simp
qed

lemma humansize_loop_Inl: "humansize_loop x i = Inl e \<Longrightarrow> e = OverflowError"
proof (induction x i rule: humansize_loop.induct)
  case (1 nbytes i)
  show ?case
  proof (cases "ge_1024 nbytes \<and> i < length suffixes - 1")
    case True
    show ?thesis
    proof (cases "truediv_1024 nbytes")
      case (Inl err)
      with True "1.prems" have "e = err" by (subst (asm) humansize_loop.simps) simp
      with Inl show ?thesis by (auto dest: truediv_1024_Inl)
    next
      case (Inr y)
      with True "1.prems" have "humansize_loop y (i + 1) = Inl e"
        by (subst (asm) humansize_loop.simps) simp
      with "1.IH" [OF True Inr] show ?thesis by simp
    qed
  next
    case False
    with "1.prems" show ?thesis by (subst (asm) humansize_loop.simps) (auto split: if_splits)
  qed
qed

lemma format_2f_Inl: "format_2f x = Inl e \<Longrightarrow> e = OverflowError"
  by (cases x) (auto split: sum.splits dest: float_of_int_Inl)

lemma humansize_Inl: "humansize n = Inl e \<Longrightarrow> e = OverflowError"
  by (auto simp: humansize_def split: sum.splits prod.splits dest: humansize_loop_Inl format_2f_Inl)

lemma humansize_any_Inl: "humansize_any v = Inl e \<Longrightarrow> e = OverflowError \<or> e = TypeError"
  by (cases v) (auto dest: humansize_Inl)

lemma relative_to_Inl: "relative_to p q = Inl e \<Longrightarrow> e = ValueError"
  by (auto simp: relative_to_def split: if_splits)

lemma duplicate_lines_Inl: "duplicate_lines env info d = Inl e \<Longrightarrow> \<not> is_KeyError e"
  by (auto simp: duplicate_lines_def is_KeyError_def split: sum.splits
      dest!: relative_to_Inl humansize_any_Inl)

lemma py_sum_Inl: "py_sum xs = Inl e \<Longrightarrow> e = TypeError"
  by (auto simp: py_sum_eq split: if_splits)

subsection \<open>The structure of the report\<close>

lemma foldM_snoc:
  "foldM (\<lambda>x acc. case g x of Inl e \<Rightarrow> Inl e | Inr t \<Rightarrow> Inr (acc @ [t])) xs acc = Inr r \<Longrightarrow>
   \<exists>ts. list_all2 (\<lambda>x t. g x = Inr t) xs ts \<and> r = acc @ ts"
proof (induction xs arbitrary: acc)
  case Nil
  then show ?case by simp
next
  case (Cons x xs)
  from Cons.prems obtain t where t: "g x = Inr t"
    and r: "foldM (\<lambda>x acc. case g x of Inl e \<Rightarrow> Inl e | Inr t \<Rightarrow> Inr (acc @ [t])) xs (acc @ [t]) = Inr r"
    by (auto split: sum.splits)
  from Cons.IH [OF r] obtain ts where "list_all2 (\<lambda>x t. g x = Inr t) xs ts" "r = (acc @ [t]) @ ts"
    by blast
  with t have "list_all2 (\<lambda>x t. g x = Inr t) (x # xs) (t # ts) \<and> r = acc @ (t # ts)" by simp
  then show ?case by blast
qed

lemma foldM_append:
  "foldM (\<lambda>x acc. case g x of Inl e \<Rightarrow> Inl e | Inr ls \<Rightarrow> Inr (acc @ ls)) xs acc = Inr r \<Longrightarrow>
   \<exists>ts. list_all2 (\<lambda>x t. g x = Inr t) xs ts \<and> r = acc @ concat ts"
proof (induction xs arbitrary: acc)
  case Nil
  then show ?case by simp
next
  case (Cons x xs)
  from Cons.prems obtain t where t: "g x = Inr t"
    and r: "foldM (\<lambda>x acc. case g x of Inl e \<Rightarrow> Inl e | Inr ls \<Rightarrow> Inr (acc @ ls)) xs (acc @ t) = Inr r"
    by (auto split: sum.splits)
  from Cons.IH [OF r] obtain ts where "list_all2 (\<lambda>x t. g x = Inr t) xs ts" "r = (acc @ t) @ concat ts"
    by blast
  with t have "list_all2 (\<lambda>x t. g x = Inr t) (x # xs) (t # ts) \<and> r = acc @ concat (t # ts)" by simp
  then show ?case by blast
qed

lemma foldM_case_Inl:
  "foldM (\<lambda>x acc. case g x of Inl e \<Rightarrow> Inl e | Inr t \<Rightarrow> Inr (h acc t)) xs acc = Inl e \<Longrightarrow>
   \<exists>x \<in> set xs. g x = Inl e"
  by (induction xs arbitrary: acc) (auto split: sum.splits)

lemma parse_folders_Inr:
  assumes "parse_folders env self = Inr dfs"
  shows "list_all2 (\<lambda>f t. parse_folder env self f = Inr t)
           (folders_iter env (folders_with_duplicates self)) dfs"
  using foldM_snoc [of "parse_folder env self" "folders_iter env (folders_with_duplicates self)"
      "[]" dfs] assms
  by (auto simp: parse_folders_def)

lemma parse_folder_Inr:
  assumes "parse_folder env self f = Inr t"
  shows "fst t = f"
    and "\<exists>all_files. iterdir env f = Some all_files \<and>
           duplicates_in_folder self f = Inr (fst (snd t)) \<and>
           snd (snd t) = filter (\<lambda>x. x \<notin> in_duplicate_folder ` set (fst (snd t))) all_files"
proof -
  have s: "set (fold (\<lambda>d s. set_add (in_duplicate_folder d) s) ds acc)
             = set acc \<union> in_duplicate_folder ` set ds" for ds :: "DuplicateInFolder list" and acc
    by (induction ds arbitrary: acc) (auto simp: set_set_add)
  from assms show "fst t = f"
    by (auto simp: parse_folder_def Let_def split: option.splits sum.splits)
  from assms show "\<exists>all_files. iterdir env f = Some all_files \<and>
           duplicates_in_folder self f = Inr (fst (snd t)) \<and>
           snd (snd t) = filter (\<lambda>x. x \<notin> in_duplicate_folder ` set (fst (snd t))) all_files"
    by (auto simp: parse_folder_def Let_def s split: option.splits sum.splits)
qed

lemma parse_folders_fst:
  assumes "parse_folders env self = Inr dfs"
  shows "map fst dfs = folders_iter env (folders_with_duplicates self)"
proof -
  have "list_all2 (\<lambda>f t. fst t = f) (folders_iter env (folders_with_duplicates self)) dfs"
    using parse_folders_Inr [OF assms] by (rule list_all2_mono) (rule parse_folder_Inr(1))
  then show ?thesis
    by (induction rule: list_all2_induct) auto
qed

lemma indexed_folder_cached:
  assumes "folder_cache self = create_folder_cache (match_sets self)"
    and "folder \<in> set (folders_with_duplicates self)"
  shows "\<exists>gs. folder_cache self folder = Some gs \<and> set gs \<subseteq> set (match_sets self)"
proof -
  from assms have "folder \<in> dom (folder_cache self)" by (simp add: folders_eq_dom)
  then obtain gs where gs: "folder_cache self folder = Some gs" by blast
  with assms(1) have "create_folder_cache (match_sets self) folder = Some gs" by simp
  from create_folder_cache_Some(2) [OF this] gs show ?thesis by auto
qed

lemma indexed_folder_Inl:
  assumes "folder_cache self = create_folder_cache (match_sets self)"
    and "folder \<in> set (folders_with_duplicates self)"
    and "duplicates_in_folder self folder = Inl e"
  shows "e = TypeError"
  using indexed_folder_cached [OF assms(1,2)] duplicates_in_folder_Inl [OF assms(3)] by auto

lemma indexed_folder_succeeds:
  assumes "folder_cache self = create_folder_cache (match_sets self)"
    and "folder \<in> set (folders_with_duplicates self)"
    and "\<forall>g \<in> set (match_sets self). is_JInt (file_size g)"
  shows "\<exists>es. duplicates_in_folder self folder = Inr es"
proof -
  from indexed_folder_cached [OF assms(1,2)] obtain gs where
    gs: "folder_cache self folder = Some gs" and s: "set gs \<subseteq> set (match_sets self)" by blast
  from s assms(3) have "\<forall>g \<in> set gs. is_JInt (file_size g)" by blast
  from duplicates_in_folder_cached [OF gs this] show ?thesis by blast
qed

lemma parse_folder_Inl:
  assumes "folder_cache self = create_folder_cache (match_sets self)"
    and "folder \<in> set (folders_with_duplicates self)"
    and "parse_folder env self folder = Inl e"
  shows "e = OSError \<or> e = TypeError"
  using assms(3) indexed_folder_Inl [OF assms(1,2)]
  by (auto simp: parse_folder_def Let_def split: option.splits sum.splits)

lemma parse_folders_Inl:
  assumes "folder_cache self = create_folder_cache (match_sets self)"
    and "set (folders_iter env (folders_with_duplicates self)) \<subseteq> set (folders_with_duplicates self)"
    and "parse_folders env self = Inl e"
  shows "e = OSError \<or> e = TypeError"
proof -
  from assms(3) have "foldM (\<lambda>duplicate_folder duplicate_folders.
             case parse_folder env self duplicate_folder of
               Inl e \<Rightarrow> Inl e
             | Inr t \<Rightarrow> Inr (duplicate_folders @ [t]))
       (folders_iter env (folders_with_duplicates self)) [] = Inl e" by (simp add: parse_folders_def)
  from foldM_case_Inl [where g = "parse_folder env self" and h = "\<lambda>acc t. acc @ [t]", OF this]
  obtain f where "f \<in> set (folders_iter env (folders_with_duplicates self))"
    and p: "parse_folder env self f = Inl e"
    by blast
  with assms(2) have "f \<in> set (folders_with_duplicates self)" by blast
  from assms(1) this p show ?thesis by (rule parse_folder_Inl)
qed

lemma duplicate_folder_sum_Inl:
  assumes "folder_cache self = create_folder_cache (match_sets self)"
    and "folder \<in> set (folders_with_duplicates self)"
    and "duplicate_folder_sum self folder = Inl e"
  shows "e = TypeError"
  using assms(3) indexed_folder_Inl [OF assms(1,2)]
  by (auto simp: duplicate_folder_sum_def split: sum.splits dest: py_sum_Inl)

lemma folder_lines_Inl:
  assumes "folder_cache self = create_folder_cache (match_sets self)"
    and "fst entry \<in> set (folders_with_duplicates self)"
    and "folder_lines env self entry = Inl e"
  shows "\<not> is_KeyError e"
proof -
  have a: "\<not> is_KeyError e"
    if "foldM (\<lambda>d result. case duplicate_lines env info d of
                                  Inl e \<Rightarrow> Inl e
                                | Inr ls \<Rightarrow> Inr (result @ ls)) ds [] = Inl e" for info ds e
  proof -
    from foldM_case_Inl [where g = "duplicate_lines env info" and h = "\<lambda>result ls. result @ ls", OF that]
    obtain d where "duplicate_lines env info d = Inl e" by blast
    then show ?thesis by (rule duplicate_lines_Inl)
  qed
  have b: "e = ValueError"
    if "foldM (\<lambda>f result. case relative_to f q of
                                  Inl e \<Rightarrow> Inl e
                                | Inr rel \<Rightarrow> Inr (result @ [''- '' @ str_of_Path rel])) fs [] = Inl e"
    for q fs e
  proof -
    from foldM_case_Inl [where g = "\<lambda>f. relative_to f q"
        and h = "\<lambda>result rel. result @ [''- '' @ str_of_Path rel]", OF that]
    obtain f where "relative_to f q = Inl e" by blast
    then show ?thesis by (rule relative_to_Inl)
  qed
  from assms(3) show ?thesis
    unfolding folder_lines_def Let_def
    by (auto simp: is_KeyError_def split: sum.splits
        dest!: duplicate_folder_sum_Inl [OF assms(1,2)] humansize_Inl a b)
qed

lemma to_markdown_Inl:
  assumes "folder_cache self = create_folder_cache (match_sets self)"
    and "set (folders_iter env (folders_with_duplicates self)) \<subseteq> set (folders_with_duplicates self)"
    and "to_markdown env self = Inl e"
  shows "\<not> is_KeyError e"
proof (cases "parse_folders env self")
  case (Inl e')
  with assms(3) have "e = e'" by (simp add: to_markdown_def)
  with parse_folders_Inl [OF assms(1,2) Inl] show ?thesis by (auto simp: is_KeyError_def)
next
  case (Inr dfs)
  have f: "fst entry \<in> set (folders_with_duplicates self)"
    if "entry \<in> set (sort_key (\<lambda>x. length (snd (snd x))) dfs)" for entry
  proof -
    from that have "fst entry \<in> set (map fst dfs)" by simp
    then have "fst entry \<in> set (folders_iter env (folders_with_duplicates self))"
      by (simp only: parse_folders_fst [OF Inr])
    with assms(2) show ?thesis by blast
  qed
  show ?thesis
  proof (cases "total_size self")
    case (Inl e')
    with assms(3) Inr have "e = e'" by (simp add: to_markdown_def)
    with Inl show ?thesis by (auto simp: total_size_def is_KeyError_def dest: py_sum_Inl)
  next
    case n: (Inr n)
    show ?thesis
    proof (cases "humansize n")
      case (Inl e')
      with assms(3) Inr n have "e = e'" by (simp add: to_markdown_def)
      with Inl show ?thesis by (auto simp: is_KeyError_def dest: humansize_Inl)
    next
      case s: (Inr total_str)
      from assms(3) Inr n s have
        "foldM (\<lambda>entry result. case folder_lines env self entry of
                                    Inl e \<Rightarrow> Inl e
                                  | Inr ls \<Rightarrow> Inr (result @ ls))
             (sort_key (\<lambda>x. length (snd (snd x))) dfs)
             (header_lines self total_str) = Inl e"
        by (simp add: to_markdown_def split: sum.splits)
      from foldM_case_Inl [where g = "folder_lines env self" and h = "\<lambda>result ls. result @ ls", OF this]
      obtain entry where
        en: "entry \<in> set (sort_key (\<lambda>x. length (snd (snd x))) dfs)"
        and fl: "folder_lines env self entry = Inl e"
        by blast
      from assms(1) f [OF en] fl show ?thesis by (rule folder_lines_Inl)
    qed
  qed
qed

text \<open>
  C9. For every built \<^verbatim>\<open>JDupesOutput\<close>, the folders of \<^verbatim>\<open>folders_with_duplicates\<close> are
  exactly the keys of the folder cache. So for each folder the report iterates over, the
  lookup of \<^verbatim>\<open>duplicates_in_folder\<close> finds the folder: the call never ends in a
  \<^verbatim>\<open>KeyError\<close> (the one exception left to it is the \<^verbatim>\<open>TypeError\<close> of hashing an entry
  whose size is a list or an object, and with integer sizes it returns). And
  \<^verbatim>\<open>to_markdown\<close> never ends in a \<^verbatim>\<open>KeyError\<close>, whatever the file system answers and in
  whatever order the set of folders is iterated.
\<close>

theorem folders_with_duplicates_indexed:
  assumes "JDupesOutput_init fromisoformat info json_data = Inr self"
  shows "set (folders_with_duplicates self) = dom (folder_cache self) \<and>
         (\<forall>folder \<in> set (folders_with_duplicates self).
            folder_cache self folder \<noteq> None \<and>
            (\<forall>e. duplicates_in_folder self folder = Inl e \<longrightarrow> e = TypeError \<and> \<not> is_KeyError e) \<and>
            ((\<forall>g \<in> set (match_sets self). is_JInt (file_size g)) \<longrightarrow>
               (\<exists>es. duplicates_in_folder self folder = Inr es))) \<and>
         (\<forall>env e. set (folders_iter env (folders_with_duplicates self))
                      \<subseteq> set (folders_with_duplicates self) \<longrightarrow>
                  to_markdown env self = Inl e \<longrightarrow> \<not> is_KeyError e)"
proof -
  note c = init_fields(1) [OF assms]
  from c have d: "set (folders_with_duplicates self) = dom (folder_cache self)"
    by (rule folders_eq_dom)
  have n: "folder_cache self folder \<noteq> None"
    if "folder \<in> set (folders_with_duplicates self)" for folder
    using that d by blast
  have t: "e = TypeError \<and> \<not> is_KeyError e"
    if "folder \<in> set (folders_with_duplicates self)" "duplicates_in_folder self folder = Inl e"
    for folder e
    using indexed_folder_Inl [OF c that] by (simp add: is_KeyError_def)
  have r: "\<exists>es. duplicates_in_folder self folder = Inr es"
    if "folder \<in> set (folders_with_duplicates self)"
      "\<forall>g \<in> set (match_sets self). is_JInt (file_size g)" for folder
    using c that by (rule indexed_folder_succeeds)
  have m: "\<not> is_KeyError e"
    if "set (folders_iter env (folders_with_duplicates self)) \<subseteq> set (folders_with_duplicates self)"
      "to_markdown env self = Inl e" for env e
    using c that by (rule to_markdown_Inl)
  from d n t r m show ?thesis by blast
qed

theorem folders_with_duplicates_indexed_witness:
  "JDupesOutput_init example_date example_info example_json = Inr example_output \<and>
   folders_with_duplicates example_output = [Path Root [''d1''], Path Root [''d2'']] \<and>
   dom (folder_cache example_output) = {Path Root [''d1''], Path Root [''d2'']} \<and>
   match_sets example_output = [group_A, group_B] \<and>
   is_JInt (file_size group_A) \<and> is_JInt (file_size group_B) \<and>
   set (folders_iter report_env (folders_with_duplicates example_output))
     \<subseteq> set (folders_with_duplicates example_output) \<and>
   to_markdown report_env example_output = Inl OSError \<and> \<not> is_KeyError OSError \<and>
   (\<exists>es. duplicates_in_folder example_output (Path Root [''d2'']) = Inr es)"
proof -
  have s: "set (folders_iter report_env (folders_with_duplicates example_output))
     \<subseteq> set (folders_with_duplicates example_output)"
    by (simp add: report_env_def)
  have f: "folders_with_duplicates example_output = [Path Root [''d1''], Path Root [''d2'']]"
    by (simp add: folders_with_duplicates_def example_output_def group_A_def group_B_def
        set_add_def parent_def)
  have i: "\<forall>g \<in> set (match_sets example_output). is_JInt (file_size g)"
    by (simp add: example_output_def group_A_def group_B_def)
  have "iterdir report_env (Path Root [''d1'']) = None"
    by (simp add: report_env_def files_u_def)
  then have "parse_folder report_env example_output (Path Root [''d1'']) = Inl OSError"
    by (simp add: parse_folder_def)
  moreover have "folders_iter report_env (folders_with_duplicates example_output)
      = [Path Root [''d1''], Path Root [''d2'']]"
    unfolding f by (simp add: report_env_def)
  ultimately have "parse_folders report_env example_output = Inl OSError"
    by (simp add: parse_folders_def)
  then have m: "to_markdown report_env example_output = Inl OSError"
    by (simp add: to_markdown_def)
  note t = folders_with_duplicates_indexed [OF example_built]
  from t [THEN conjunct2, THEN conjunct2] s m have k: "\<not> is_KeyError OSError" by blast
  have "Path Root [''d2''] \<in> set (folders_with_duplicates example_output)"
    unfolding f by simp
  with t [THEN conjunct2, THEN conjunct1] i
  have e: "\<exists>es. duplicates_in_folder example_output (Path Root [''d2'']) = Inr es"
    by blast
  from t [THEN conjunct1] have d: "dom (folder_cache example_output) = {Path Root [''d1''], Path Root [''d2'']}"
    unfolding f by simp
  have ms: "match_sets example_output = [group_A, group_B]" by (simp add: example_output_def)
  have ia: "is_JInt (file_size group_A)" and ib: "is_JInt (file_size group_B)"
    by (simp_all add: group_A_def group_B_def)
  from example_built f d ms ia ib s m k e show ?thesis by (intro conjI)
qed

subsection \<open>The size of the duplicates in a folder\<close>

lemma sum_entries_of_group:
  "(\<Sum>e \<in> entry_of g ` members_in g folder. the (as_int (size_dup e)))
     = int (card (members_in g folder)) * the (as_int (file_size g))"
proof -
  have "(\<Sum>e \<in> entry_of g ` members_in g folder. the (as_int (size_dup e)))
          = (\<Sum>m \<in> members_in g folder. the (as_int (size_dup (entry_of g m))))"
    by (simp add: sum.reindex [OF inj_on_entry_of])
  also have "\<dots> = (\<Sum>m \<in> members_in g folder. the (as_int (file_size g)))"
    by (simp add: entry_of_def)
  finally show ?thesis by simp
qed

lemma example_sum: "duplicate_folder_sum example_output (Path_of_str ''/d2'') = Inr 200"
proof -
  have "Path_of_str ''/d2'' = Path Root [''d2'']"
    by (simp add: Path_of_str_def path_parts_def)
  then show ?thesis
    by (simp add: duplicate_folder_sum_def example_duplicates(2) py_sum_def entry_of_def
        group_A_def group_B_def)
qed

lemma sum_entries_disjoint:
  assumes "\<forall>g \<in> set gs. \<forall>g' \<in> set gs. g \<noteq> g' \<longrightarrow> set (file_list g) \<inter> set (file_list g') = {}"
  shows "(\<Sum>e \<in> (\<Union>g\<in>set gs. entry_of g ` members_in g folder). the (as_int (size_dup e)))
           = (\<Sum>g \<in> set gs. int (card (members_in g folder)) * the (as_int (file_size g)))"
proof -
  have "(\<Sum>e \<in> (\<Union>g\<in>set gs. entry_of g ` members_in g folder). the (as_int (size_dup e)))
          = (\<Sum>g \<in> set gs. \<Sum>e \<in> entry_of g ` members_in g folder. the (as_int (size_dup e)))"
  proof (rule sum.UNION_disjoint)
    show "finite (set gs)" by simp
    show "\<forall>g \<in> set gs. finite (entry_of g ` members_in g folder)"
      by (simp add: finite_members_in)
    show "\<forall>g \<in> set gs. \<forall>g' \<in> set gs. g \<noteq> g' \<longrightarrow>
            entry_of g ` members_in g folder \<inter> entry_of g' ` members_in g' folder = {}"
      using assms by (auto intro!: entries_disjoint)
  qed
  then show ?thesis by (simp only: sum_entries_of_group)
qed

text \<open>
  C2. The per-folder size that the report prints is the sum of the sizes of the entries
  that \<^verbatim>\<open>duplicates_in_folder\<close> returns for the folder, each entry counted once (the sizes
  of the groups being integers). It is not reduced to one size per group: the entries of
  a group with \<open>k\<close> members in the folder are \<open>k\<close> entries of the result and add up to
  \<open>k\<close> times the group's size; and when no two groups indexed for the folder have a file
  in common, the size printed is the sum over these groups of the number of members in the
  folder times the group's size. For the groups A and B of the specification the sum for
  /d2 is 200.
\<close>

theorem duplicate_folder_sum_per_entry:
  assumes "folder_cache self folder = Some gs"
    and "\<forall>g \<in> set gs. is_JInt (file_size g)"
  shows "\<exists>es. duplicates_in_folder self folder = Inr es \<and>
         duplicate_folder_sum self folder = Inr (\<Sum>e \<in> set es. the (as_int (size_dup e))) \<and>
         duplicate_folder_sum self folder = Inr (sum_list (map (\<lambda>e. the (as_int (size_dup e))) es)) \<and>
         (\<forall>g \<in> set gs.
            entry_of g ` members_in g folder \<subseteq> set es \<and>
            card (entry_of g ` members_in g folder) = card (members_in g folder) \<and>
            (\<Sum>e \<in> entry_of g ` members_in g folder. the (as_int (size_dup e)))
              = int (card (members_in g folder)) * the (as_int (file_size g))) \<and>
         ((\<forall>g \<in> set gs. \<forall>g' \<in> set gs.
             g \<noteq> g' \<longrightarrow> set (file_list g) \<inter> set (file_list g') = {}) \<longrightarrow>
          duplicate_folder_sum self folder
            = Inr (\<Sum>g \<in> set gs. int (card (members_in g folder)) * the (as_int (file_size g)))) \<and>
         (\<exists>out. JDupesOutput_init example_date example_info example_json = Inr out \<and>
                duplicate_folder_sum out (Path_of_str ''/d2'') = Inr 200)"
proof -
  from duplicates_in_folder_cached [OF assms] obtain es where
    es: "duplicates_in_folder self folder = Inr es" and d: "distinct es"
    and s: "set es = (\<Union>g\<in>set gs. entry_of g ` members_in g folder)"
    by blast
  from s assms(2) have i: "\<forall>e \<in> set es. as_int (size_dup e) \<noteq> None"
    by (auto simp: entry_of_def is_JInt_iff)
  from es i have l: "duplicate_folder_sum self folder
      = Inr (sum_list (map (\<lambda>e. the (as_int (size_dup e))) es))"
    by (simp add: duplicate_folder_sum_def py_sum_eq comp_def)
  from d have "sum_list (map (\<lambda>e. the (as_int (size_dup e))) es)
      = (\<Sum>e \<in> set es. the (as_int (size_dup e)))"
    by (rule sum_list_distinct_conv_sum_set)
  with l have a: "duplicate_folder_sum self folder = Inr (\<Sum>e \<in> set es. the (as_int (size_dup e)))"
    by simp
  have g: "entry_of g ` members_in g folder \<subseteq> set es" if "g \<in> set gs" for g
    using that s by blast
  have t: "duplicate_folder_sum self folder
            = Inr (\<Sum>g \<in> set gs. int (card (members_in g folder)) * the (as_int (file_size g)))"
    if "\<forall>g \<in> set gs. \<forall>g' \<in> set gs. g \<noteq> g' \<longrightarrow> set (file_list g) \<inter> set (file_list g') = {}"
    using a sum_entries_disjoint [OF that, of folder] by (simp only: s)
  have p: "\<forall>g \<in> set gs.
            entry_of g ` members_in g folder \<subseteq> set es \<and>
            card (entry_of g ` members_in g folder) = card (members_in g folder) \<and>
            (\<Sum>e \<in> entry_of g ` members_in g folder. the (as_int (size_dup e)))
              = int (card (members_in g folder)) * the (as_int (file_size g))"
    using g card_entries sum_entries_of_group by blast
  have x: "\<exists>out. JDupesOutput_init example_date example_info example_json = Inr out \<and>
                duplicate_folder_sum out (Path_of_str ''/d2'') = Inr 200"
    using example_built example_sum by blast
  show ?thesis
  proof (intro exI conjI impI)
    show "duplicates_in_folder self folder = Inr es" by (rule es)
    show "duplicate_folder_sum self folder = Inr (\<Sum>e \<in> set es. the (as_int (size_dup e)))"
      by (rule a)
    show "duplicate_folder_sum self folder = Inr (sum_list (map (\<lambda>e. the (as_int (size_dup e))) es))"
      by (rule l)
    show "\<forall>g \<in> set gs.
            entry_of g ` members_in g folder \<subseteq> set es \<and>
            card (entry_of g ` members_in g folder) = card (members_in g folder) \<and>
            (\<Sum>e \<in> entry_of g ` members_in g folder. the (as_int (size_dup e)))
              = int (card (members_in g folder)) * the (as_int (file_size g))"
      by (rule p)
    show "duplicate_folder_sum self folder
            = Inr (\<Sum>g \<in> set gs. int (card (members_in g folder)) * the (as_int (file_size g)))"
      if "\<forall>g \<in> set gs. \<forall>g' \<in> set gs. g \<noteq> g' \<longrightarrow> set (file_list g) \<inter> set (file_list g') = {}"
      using that by (rule t)
    show "JDupesOutput_init example_date example_info example_json = Inr example_output"
      by (rule example_built)
    show "duplicate_folder_sum example_output (Path_of_str ''/d2'') = Inr 200"
      by (rule example_sum)
  qed
qed

theorem duplicate_folder_sum_per_entry_witness:
  "folder_cache example_output (Path Root [''d2'']) = Some [group_A, group_B] \<and>
   is_JInt (file_size group_A) \<and> is_JInt (file_size group_B) \<and>
   set (file_list group_A) \<inter> set (file_list group_B) = {} \<and>
   duplicates_in_folder example_output (Path Root [''d2'']) =
     Inr [entry_of group_A (Path Root [''d2'', ''a'']), entry_of group_B (Path Root [''d2'', ''c'']),
          entry_of group_B (Path Root [''d2'', ''d''])] \<and>
   duplicate_folder_sum example_output (Path Root [''d2'']) = Inr (100 + 50 + 50) \<and>
   card (members_in group_B (Path Root [''d2''])) = 2 \<and>
   (\<Sum>e \<in> entry_of group_B ` members_in group_B (Path Root [''d2'']). the (as_int (size_dup e)))
     = 2 * 50 \<and>
   duplicate_folder_sum example_output (Path Root [''d2''])
     = Inr (\<Sum>g \<in> {group_A, group_B}.
              int (card (members_in g (Path Root [''d2'']))) * the (as_int (file_size g)))"
proof -
  let ?es = "[entry_of group_A (Path Root [''d2'', ''a'']), entry_of group_B (Path Root [''d2'', ''c'']),
          entry_of group_B (Path Root [''d2'', ''d''])]"
  have ia: "is_JInt (file_size group_A)" and ib: "is_JInt (file_size group_B)"
    by (simp_all add: group_A_def group_B_def)
  then have n: "\<forall>g \<in> set [group_A, group_B]. is_JInt (file_size g)" by simp
  have dj: "set (file_list group_A) \<inter> set (file_list group_B) = {}"
    by (simp add: group_A_def group_B_def)
  then have dj': "\<forall>g \<in> set [group_A, group_B]. \<forall>g' \<in> set [group_A, group_B].
      g \<noteq> g' \<longrightarrow> set (file_list g) \<inter> set (file_list g') = {}" by auto
  have m: "members_in group_B (Path Root [''d2'']) = {Path Root [''d2'', ''c''], Path Root [''d2'', ''d'']}"
    by (auto simp: members_in_def group_B_def parent_def)
  have k: "card (members_in group_B (Path Root [''d2''])) = 2"
    unfolding m by simp
  have z: "the (as_int (file_size group_B)) = 50" by (simp add: group_B_def)
  from duplicate_folder_sum_per_entry [OF example_cache(2) n, of ] obtain es where
    es: "duplicates_in_folder example_output (Path Root [''d2'']) = Inr es"
    and t2: "duplicate_folder_sum example_output (Path Root [''d2''])
               = Inr (sum_list (map (\<lambda>e. the (as_int (size_dup e))) es))"
    and t3: "\<forall>g \<in> set [group_A, group_B].
            entry_of g ` members_in g (Path Root [''d2'']) \<subseteq> set es \<and>
            card (entry_of g ` members_in g (Path Root [''d2''])) = card (members_in g (Path Root [''d2''])) \<and>
            (\<Sum>e \<in> entry_of g ` members_in g (Path Root [''d2'']). the (as_int (size_dup e)))
              = int (card (members_in g (Path Root [''d2'']))) * the (as_int (file_size g))"
    and t4: "(\<forall>g \<in> set [group_A, group_B]. \<forall>g' \<in> set [group_A, group_B].
             g \<noteq> g' \<longrightarrow> set (file_list g) \<inter> set (file_list g') = {}) \<longrightarrow>
          duplicate_folder_sum example_output (Path Root [''d2''])
            = Inr (\<Sum>g \<in> set [group_A, group_B].
                     int (card (members_in g (Path Root [''d2'']))) * the (as_int (file_size g)))"
    by blast
  from es have e: "es = ?es" by (simp add: example_duplicates(2))
  from t2 have a: "duplicate_folder_sum example_output (Path Root [''d2'']) = Inr (100 + 50 + 50)"
    unfolding e by (simp add: entry_of_def group_A_def group_B_def)
  from t3 have "(\<Sum>e \<in> entry_of group_B ` members_in group_B (Path Root [''d2'']). the (as_int (size_dup e)))
          = int (card (members_in group_B (Path Root [''d2'']))) * the (as_int (file_size group_B))"
    by simp
  then have b: "(\<Sum>e \<in> entry_of group_B ` members_in group_B (Path Root [''d2'']).
                   the (as_int (size_dup e))) = 2 * 50"
    by (simp only: k z)
  from t4 dj' have c: "duplicate_folder_sum example_output (Path Root [''d2''])
     = Inr (\<Sum>g \<in> set [group_A, group_B].
              int (card (members_in g (Path Root [''d2'']))) * the (as_int (file_size g)))"
    by (rule mp)
  have "set [group_A, group_B] = {group_A, group_B}" by simp
  with c have c': "duplicate_folder_sum example_output (Path Root [''d2''])
     = Inr (\<Sum>g \<in> {group_A, group_B}.
              int (card (members_in g (Path Root [''d2'']))) * the (as_int (file_size g)))"
    by (simp only:)
  from example_cache(2) ia ib dj example_duplicates(2) a k b c' show ?thesis by blast
qed

subsection \<open>Construction of a match set\<close>

lemma file_list_loop:
  "list_all2 (\<lambda>e s. getitem e ''filePath'' = Inr (JStr s)) entries paths \<Longrightarrow>
   foldM (\<lambda>str_path result.
           case getitem str_path ''filePath'' of
             Inl e \<Rightarrow> Inl e
           | Inr fp \<Rightarrow> (case Path_init fp of Inl e \<Rightarrow> Inl e | Inr p \<Rightarrow> Inr (result @ [p])))
     entries acc = Inr (acc @ map Path_of_str paths)"
proof (induction arbitrary: acc rule: list_all2_induct)
  case Nil
  then show ?case by simp
next
  case (Cons e es s ps)
  then show ?case by simp
qed

text \<open>
  C6, as claimed, fails: \<^verbatim>\<open>MatchSet.__init__\<close> validates nothing. A record with a negative
  size, or with a string as size, and with an empty file list is constructed; a record
  without a size ends in the \<^verbatim>\<open>KeyError\<close> of the dict lookup, not in a typed error of the
  program's own (the program defines none).
\<close>

theorem MatchSet_init_counterexample:
  "MatchSet_init 0 (JDict [(''fileSize'', JInt (- 1)), (''fileList'', JList [])])
     = Inr \<lparr>ms_id = 0, file_size = JInt (- 1), file_list = []\<rparr> \<and>
   MatchSet_init 0 (JDict [(''fileSize'', JStr ''big''), (''fileList'', JList [])])
     = Inr \<lparr>ms_id = 0, file_size = JStr ''big'', file_list = []\<rparr> \<and>
   MatchSet_init 0 (JDict [(''fileList'', JList [JDict [(''filePath'', JStr ''/d1/a'')]])])
     = Inl (KeyError ''fileSize'')"
  by (simp add: MatchSet_init_def get_file_list_def)

text \<open>
  C6, amended. Constructing a match set from a raw record ends in \<^verbatim>\<open>KeyError\<close> when the
  size is missing, and when the size is there and the file list is missing. When both are
  there and the file list is a list of records with a string \<^verbatim>\<open>filePath\<close>, the
  construction succeeds whatever the size is (a negative or non-integer one included) and
  however many files there are (none included), and keeps the size and the paths as
  given.
\<close>

theorem MatchSet_init_unvalidated:
  "(map_of kvs ''fileSize'' = None \<longrightarrow>
      MatchSet_init i (JDict kvs) = Inl (KeyError ''fileSize'')) \<and>
   (map_of kvs ''fileSize'' = Some sz \<and> map_of kvs ''fileList'' = None \<longrightarrow>
      MatchSet_init i (JDict kvs) = Inl (KeyError ''fileList'')) \<and>
   (map_of kvs ''fileSize'' = Some sz \<and> map_of kvs ''fileList'' = Some (JList entries) \<and>
    list_all2 (\<lambda>e s. getitem e ''filePath'' = Inr (JStr s)) entries paths \<longrightarrow>
      MatchSet_init i (JDict kvs)
        = Inr \<lparr>ms_id = i, file_size = sz, file_list = map Path_of_str paths\<rparr>)"
  by (auto simp: MatchSet_init_def get_file_list_def file_list_loop)

theorem MatchSet_init_unvalidated_witness:
  "map_of [(''fileSize'', JInt (- 1)), (''fileList'', JList [])] ''fileSize'' = Some (JInt (- 1)) \<and>
   map_of [(''fileSize'', JInt (- 1)), (''fileList'', JList [])] ''fileList'' = Some (JList []) \<and>
   list_all2 (\<lambda>e s. getitem e ''filePath'' = Inr (JStr s)) [] [] \<and>
   MatchSet_init 7 (JDict [(''fileSize'', JInt (- 1)), (''fileList'', JList [])])
     = Inr \<lparr>ms_id = 7, file_size = JInt (- 1), file_list = map Path_of_str []\<rparr> \<and>
   map_of [(''fileList'', JList [])] ''fileSize'' = None \<and>
   MatchSet_init 7 (JDict [(''fileList'', JList [])]) = Inl (KeyError ''fileSize'') \<and>
   map_of [(''fileSize'', JInt 3)] ''fileList'' = None \<and>
   MatchSet_init 7 (JDict [(''fileSize'', JInt 3)]) = Inl (KeyError ''fileList'')"
  using MatchSet_init_unvalidated [where kvs = "[(''fileSize'', JInt (- 1)), (''fileList'', JList [])]"
      and sz = "JInt (- 1)" and i = 7 and entries = "[]" and paths = "[]"]
    MatchSet_init_unvalidated [where kvs = "[(''fileList'', JList [])]" and i = 7]
    MatchSet_init_unvalidated [where kvs = "[(''fileSize'', JInt 3)]" and sz = "JInt 3" and i = 7]
  by simp

subsection \<open>The size format\<close>

lemma bitlen_le: "a < 2 ^ j \<Longrightarrow> bitlen a \<le> j"
proof (induction j arbitrary: a)
  case 0
  then have "a \<le> 0" by simp
  then show ?case by (subst bitlen.simps) simp
next
  case (Suc j)
  show ?case
  proof (cases "a \<le> 0")
    case True
    then show ?thesis by (subst bitlen.simps) simp
  next
    case False
    from Suc.prems have "a div 2 < 2 ^ j" by simp
    from Suc.IH [OF this] False show ?thesis by (subst bitlen.simps) simp
  qed
qed

lemma bitlen_lower: "0 < a \<Longrightarrow> 2 ^ (bitlen a - 1) \<le> a"
proof (induction a rule: bitlen.induct)
  case (1 a)
  show ?case
  proof (cases "a div 2 \<le> 0")
    case True
    with "1.prems" have "a = 1" by simp
    moreover have "bitlen 1 = 1" by (simp add: bitlen.simps)
    ultimately show ?thesis by simp
  next
    case False
    with "1.prems" "1.IH" have ih: "2 ^ (bitlen (a div 2) - 1) \<le> a div 2" by simp
    from False have "0 < bitlen (a div 2)" by (subst bitlen.simps) simp
    then have "bitlen (a div 2) = Suc (bitlen (a div 2) - 1)" by simp
    moreover from "1.prems" have "bitlen a = Suc (bitlen (a div 2))"
      by (subst bitlen.simps) simp
    ultimately have "(2::int) ^ (bitlen a - 1) = 2 * 2 ^ (bitlen (a div 2) - 1)"
      by (metis diff_Suc_1 power_Suc)
    also from ih have "\<dots> \<le> 2 * (a div 2)" by simp
    also have "\<dots> \<le> a" by simp
    finally show ?thesis .
  qed
qed

lemma round_half_even_one: "round_half_even a 1 = a"
  by (simp add: round_half_even_def)

lemma round_half_even_exact: "0 < d \<Longrightarrow> round_half_even (a * d) d = a"
  by (simp add: round_half_even_def)

lemma round_half_even_scale:
  assumes "0 < c"
  shows "round_half_even (a * c) (d * c) = round_half_even a d"
proof -
  from assms have c: "c \<noteq> 0" by simp
  have q: "a * c div (d * c) = a div d" using c by simp
  have r: "a * c mod (d * c) = (a mod d) * c" using c by simp
  have l: "d * c < 2 * ((a mod d) * c) \<longleftrightarrow> d < 2 * (a mod d)"
    using assms by (metis mult.assoc mult_less_cancel_right_pos)
  have e: "2 * ((a mod d) * c) = d * c \<longleftrightarrow> 2 * (a mod d) = d"
    using c by (metis mult.assoc mult_cancel_right)
  show ?thesis
    unfolding round_half_even_def Let_def q r l e ..
qed

lemma round_half_even_ge: "0 \<le> a \<Longrightarrow> 0 < d \<Longrightarrow> a div d \<le> round_half_even a d"
  by (simp add: round_half_even_def Let_def)

lemma round_half_even_nearest:
  assumes "0 < d"
  shows "\<bar>2 * (round_half_even a d * d - a)\<bar> \<le> d"
proof -
  have a: "a = a div d * d + a mod d" by simp
  have m: "0 \<le> a mod d" "a mod d < d" using assms by simp_all
  show ?thesis
  proof (cases "d < 2 * (a mod d) \<or> (2 * (a mod d) = d \<and> odd (a div d))")
    case True
    then have "round_half_even a d = a div d + 1" by (simp add: round_half_even_def Let_def)
    then have "round_half_even a d * d - a = d - a mod d"
      by (simp add: algebra_simps)
    with True m show ?thesis by auto
  next
    case False
    then have "round_half_even a d = a div d" by (auto simp: round_half_even_def Let_def)
    then have "round_half_even a d * d - a = - (a mod d)"
      by (simp add: algebra_simps)
    with False m show ?thesis by auto
  qed
qed

lemma float_of_int_small:
  assumes "0 \<le> n" and "n < 2 ^ 53"
  shows "float_of_int n = Inr (Float n 0)"
proof -
  from assms have b: "bitlen \<bar>n\<bar> - 53 = 0" using bitlen_le [of "\<bar>n\<bar>" 53] by simp
  have "(2::int) ^ 53 \<le> 2 ^ 1024" by simp
  with assms have "\<not> 2 ^ 1024 \<le> n" by linarith
  moreover from assms(1) have "sgn n * n = n" by (simp add: sgn_if)
  ultimately show ?thesis using assms b
    by (simp add: float_of_int_def Let_def round_half_even_one)
qed

lemma float_of_int_nonneg:
  assumes "0 \<le> n" and "float_of_int n = Inr (Float m k)"
  shows "0 \<le> m" and "0 \<le> k" and "1024 \<le> n \<longleftrightarrow> 1024 \<le> m * 2 ^ nat k"
proof -
  let ?k = "bitlen \<bar>n\<bar> - 53"
  let ?q = "round_half_even \<bar>n\<bar> (2 ^ ?k)"
  from assms(2) have m: "m = sgn n * ?q" and k: "k = int ?k"
    by (auto simp: float_of_int_def Let_def split: if_splits)
  have q: "\<bar>n\<bar> div 2 ^ ?k \<le> ?q" by (rule round_half_even_ge) simp_all
  have "0 \<le> \<bar>n\<bar> div 2 ^ ?k" by (simp add: pos_imp_zdiv_nonneg_iff)
  with q have q0: "0 \<le> ?q" by linarith
  with assms(1) m show "0 \<le> m" by (simp add: sgn_if)
  from k show "0 \<le> k" by simp
  show "1024 \<le> n \<longleftrightarrow> 1024 \<le> m * 2 ^ nat k"
  proof (cases "bitlen \<bar>n\<bar> \<le> 53")
    case True
    then have "?k = 0" by simp
    with m k assms(1) have "m * 2 ^ nat k = n"
      by (simp add: round_half_even_one sgn_if)
    then show ?thesis by simp
  next
    case False
    then have b: "bitlen \<bar>n\<bar> - 1 = ?k + 52" by simp
    have "bitlen 0 = 0" by (subst bitlen.simps) simp
    with False have "\<bar>n\<bar> \<noteq> 0" by auto
    with assms(1) have n0: "0 < n" by simp
    from n0 bitlen_lower [of "\<bar>n\<bar>"] have "(2::int) ^ (bitlen \<bar>n\<bar> - 1) \<le> \<bar>n\<bar>" by simp
    then have "(2::int) ^ (?k + 52) \<le> \<bar>n\<bar>" by (simp only: b)
    with n0 have l: "(2::int) ^ (?k + 52) \<le> n" by simp
    have "(2::int) ^ 52 * 2 ^ ?k div 2 ^ ?k \<le> \<bar>n\<bar> div 2 ^ ?k"
      using l n0 by (intro zdiv_mono1) (simp_all add: power_add mult.commute)
    then have "(2::int) ^ 52 \<le> \<bar>n\<bar> div 2 ^ ?k" by simp
    with q have q52: "(2::int) ^ 52 \<le> ?q" by linarith
    have "(1::int) \<le> 2 ^ ?k" by simp
    with q52 have "(2::int) ^ 52 * 1 \<le> ?q * 2 ^ ?k"
      by (intro mult_mono) simp_all
    moreover from n0 m k have "m * 2 ^ nat k = ?q * 2 ^ ?k" by (simp add: sgn_if)
    ultimately have "1024 \<le> m * 2 ^ nat k" by simp
    moreover have "(1024::int) \<le> 2 ^ (?k + 52)"
    proof -
      have "(2::int) ^ 10 \<le> 2 ^ (?k + 52)" by (rule power_increasing) simp_all
      then show ?thesis by simp
    qed
    with l have "1024 \<le> n" by linarith
    ultimately show ?thesis by simp
  qed
qed

lemma power_1024: "(1024::int) ^ i = 2 ^ (10 * i)"
proof -
  have "(1024::int) = 2 ^ 10" by simp
  then show ?thesis by (simp only: power_mult)
qed

lemma ge_1024_float:
  assumes "0 \<le> m"
  shows "ge_1024 (PyFloat (Float m (int k - 10 * int i))) \<longleftrightarrow> 1024 * 1024 ^ i \<le> m * 2 ^ k"
proof (cases "0 \<le> int k - 10 * int i")
  case True
  then have k: "k = nat (int k - 10 * int i) + 10 * i" by simp
  have "m * 2 ^ k = m * 2 ^ nat (int k - 10 * int i) * 1024 ^ i"
    by (subst k) (simp add: power_add power_1024)
  moreover have "1024 * 1024 ^ i \<le> m * 2 ^ nat (int k - 10 * int i) * 1024 ^ i
                   \<longleftrightarrow> 1024 \<le> m * 2 ^ nat (int k - 10 * int i)"
    by simp
  moreover from True have "ge_1024 (PyFloat (Float m (int k - 10 * int i)))
                   \<longleftrightarrow> 1024 \<le> m * 2 ^ nat (int k - 10 * int i)"
    by simp
  ultimately show ?thesis by (simp only:)
next
  case False
  then have i: "10 * i = nat (- (int k - 10 * int i)) + k" by simp
  have "(1024::int) * 1024 ^ i = 1024 * 2 ^ nat (- (int k - 10 * int i)) * 2 ^ k"
    by (subst power_1024, subst i) (simp add: power_add)
  moreover have "1024 * 2 ^ nat (- (int k - 10 * int i)) * 2 ^ k \<le> m * 2 ^ k
                   \<longleftrightarrow> 1024 * 2 ^ nat (- (int k - 10 * int i)) \<le> m"
    by simp
  moreover from False have "ge_1024 (PyFloat (Float m (int k - 10 * int i)))
                   \<longleftrightarrow> 1024 * 2 ^ nat (- (int k - 10 * int i)) \<le> m"
    by simp
  ultimately show ?thesis by (simp only:)
qed

lemma humansize_loop_float:
  assumes "0 \<le> m"
  shows "i \<le> 5 \<Longrightarrow>
         humansize_loop (PyFloat (Float m (int k - 10 * int i))) i
           = Inr (PyFloat (Float m (int k - 10 * int (divisions (m * 2 ^ k) i))),
                  divisions (m * 2 ^ k) i)"
proof (induction "m * 2 ^ k" i rule: divisions.induct)
  case (1 i)
  show ?case
  proof (cases "1024 * 1024 ^ i \<le> m * 2 ^ k \<and> i < 5")
    case True
    then have d: "divisions (m * 2 ^ k) i = divisions (m * 2 ^ k) (i + 1)"
      by (subst divisions.simps) simp
    have e: "int k - 10 * int i - 10 = int k - 10 * int (i + 1)" by simp
    from True have "i + 1 \<le> 5" by simp
    from "1.hyps" [OF True this] True show ?thesis
      by (subst humansize_loop.simps)
        (simp add: ge_1024_float [OF assms] suffixes_def d e del: of_nat_Suc of_nat_add ge_1024.simps)
  next
    case False
    then have d: "divisions (m * 2 ^ k) i = i"
      by (subst divisions.simps) auto
    from False show ?thesis
      by (subst humansize_loop.simps)
        (auto simp: ge_1024_float [OF assms] suffixes_def d simp del: ge_1024.simps)
  qed
qed

lemma format_2f_float_eq:
  assumes "0 \<le> m"
  shows "format_2f_float (Float m (int k - 10 * int j))
           = two_decimals (round_half_even (100 * (m * 2 ^ k)) (1024 ^ j))"
proof (cases "0 \<le> int k - 10 * int j")
  case True
  then have k: "k = nat (int k - 10 * int j) + 10 * j" by simp
  have "100 * (m * 2 ^ k) = 100 * m * 2 ^ nat (int k - 10 * int j) * 1024 ^ j"
    by (subst k) (simp add: power_add power_1024)
  then have "round_half_even (100 * (m * 2 ^ k)) (1024 ^ j) = 100 * m * 2 ^ nat (int k - 10 * int j)"
    by (simp only: round_half_even_exact [of "1024 ^ j"] zero_less_power zero_less_numeral)
  with True assms show ?thesis
    by (simp add: two_decimals_def Let_def)
next
  case False
  then have j: "10 * j = nat (- (int k - 10 * int j)) + k" by simp
  have "(1024::int) ^ j = 2 ^ nat (- (int k - 10 * int j)) * 2 ^ k"
    by (subst power_1024, subst j) (simp add: power_add)
  moreover have "100 * (m * 2 ^ k) = 100 * m * 2 ^ k" by simp
  ultimately have "round_half_even (100 * (m * 2 ^ k)) (1024 ^ j)
      = round_half_even (100 * m * 2 ^ k) (2 ^ nat (- (int k - 10 * int j)) * 2 ^ k)"
    by (simp only:)
  also have "\<dots> = round_half_even (100 * m) (2 ^ nat (- (int k - 10 * int j)))"
    by (rule round_half_even_scale) simp
  finally show ?thesis using False assms
    by (simp add: two_decimals_def Let_def)
qed

lemma divisions_0: "divisions x 0 = (if 1024 \<le> x then divisions x 1 else 0)"
  by (subst divisions.simps) simp

lemma divisions_le: "i \<le> 5 \<Longrightarrow> divisions x i \<le> 5"
proof (induction x i rule: divisions.induct)
  case (1 x i)
  then show ?case by (subst divisions.simps) auto
qed

lemma suffixes_nth: "suffixes ! i = [''B'', ''KB'', ''MB'', ''GB'', ''TB'', ''PB''] ! i"
  by (simp add: suffixes_def)

lemma humansize_small:
  assumes "0 \<le> n" and "n < 1024"
  shows "humansize n = Inr (format_size n)"
proof -
  from assms have f: "float_of_int n = Inr (Float n 0)"
    by (intro float_of_int_small) simp_all
  from assms(2) have l: "humansize_loop (PyInt n) 0 = Inr (PyInt n, 0)"
    by (subst humansize_loop.simps) simp
  from assms(2) have d: "divisions n 0 = 0" by (simp add: divisions_0)
  from format_2f_float_eq [OF assms(1), of 0 0]
  have "format_2f_float (Float n 0) = two_decimals (round_half_even (100 * n) 1)" by simp
  with f have fm: "format_2f (PyInt n) = Inr (two_decimals (round_half_even (100 * n) 1))"
    by simp
  have fs: "format_size n
      = rstrip CHR ''.'' (rstrip CHR ''0'' (two_decimals (round_half_even (100 * n) 1)))
          @ ''  '' @ suffixes ! 0"
    by (simp add: format_size_def Let_def d suffixes_def)
  have "humansize n
      = Inr (rstrip CHR ''.'' (rstrip CHR ''0'' (two_decimals (round_half_even (100 * n) 1)))
          @ ''  '' @ suffixes ! 0)"
    by (simp only: humansize_def l fm sum.case prod.case)
  then show ?thesis by (simp only: fs)
qed

lemma humansize_large:
  assumes "0 \<le> n" and "1024 \<le> n"
  shows "humansize n = (case float_of_int n of
                          Inl e \<Rightarrow> Inl OverflowError
                        | Inr (Float m k) \<Rightarrow> Inr (format_size (m * 2 ^ nat k)))"
proof (cases "float_of_int n")
  case (Inl e)
  with assms(2) have "humansize_loop (PyInt n) 0 = Inl e"
    by (subst humansize_loop.simps) (simp add: suffixes_def)
  moreover from Inl have "e = OverflowError" by (rule float_of_int_Inl)
  ultimately show ?thesis using Inl by (simp add: humansize_def)
next
  case (Inr x)
  obtain m k where x: "x = Float m k" by (cases x)
  from float_of_int_nonneg [OF assms(1) Inr [unfolded x]] assms(2)
  have m: "0 \<le> m" and k: "0 \<le> k" and g: "1024 \<le> m * 2 ^ nat k" by simp_all
  let ?F = "m * 2 ^ nat k"
  let ?j = "divisions ?F 1"
  from k have e: "k - 10 = int (nat k) - 10 * int 1" by simp
  from assms(2) Inr x have "humansize_loop (PyInt n) 0
      = humansize_loop (PyFloat (Float m (int (nat k) - 10 * int 1))) 1"
    by (subst humansize_loop.simps) (simp add: suffixes_def e del: of_nat_Suc)
  also have "\<dots> = Inr (PyFloat (Float m (int (nat k) - 10 * int ?j)), ?j)"
    by (rule humansize_loop_float [OF m]) simp
  finally have l: "humansize_loop (PyInt n) 0
      = Inr (PyFloat (Float m (int (nat k) - 10 * int ?j)), ?j)" .
  from g have d: "divisions ?F 0 = ?j" by (simp add: divisions_0)
  have fs: "format_size ?F
      = rstrip CHR ''.'' (rstrip CHR ''0'' (two_decimals (round_half_even (100 * ?F) (1024 ^ ?j))))
          @ ''  '' @ suffixes ! ?j"
    by (simp add: format_size_def Let_def d suffixes_nth)
  have fm: "format_2f (PyFloat (Float m (int (nat k) - 10 * int ?j)))
      = Inr (two_decimals (round_half_even (100 * ?F) (1024 ^ ?j)))"
    by (simp only: format_2f.simps format_2f_float_eq [OF m])
  have "humansize n
      = Inr (rstrip CHR ''.'' (rstrip CHR ''0'' (two_decimals (round_half_even (100 * ?F) (1024 ^ ?j))))
          @ ''  '' @ suffixes ! ?j)"
    by (simp only: humansize_def l fm sum.case prod.case)
  then have "humansize n = Inr (format_size ?F)" by (simp only: fs)
  with Inr x show ?thesis by simp
qed

lemma humansize_examples:
  "humansize 0 = Inr ''0  B''"
  "humansize 1023 = Inr ''1023  B''"
  "humansize 1024 = Inr ''1  KB''"
  "humansize 1536 = Inr ''1.5  KB''"
  "humansize 1073741824 = Inr ''1  GB''"
  by code_simp+

text \<open>
  C8, as claimed, fails for large counts: \<^verbatim>\<open>humansize\<close> formats \<^verbatim>\<open>float(n)\<close>, not \<open>n\<close>.
  The count 9147936743096321 (above \<open>2 ^ 53\<close>) is converted to the float
  9147936743096320, which is 8.125 PB exactly and is written 8.12 (the tie goes to the
  even hundredth), while the count divided by \<open>1024 ^ 5\<close> lies above 8.125 and has the
  nearest hundredth 8.13. And for the count \<open>2 ^ 1024\<close> there is no result: the conversion
  raises \<^verbatim>\<open>OverflowError\<close>.
\<close>

theorem humansize_counterexample:
  "humansize 9147936743096321 = Inr ''8.12  PB'' \<and>
   format_size 9147936743096321 = ''8.13  PB'' \<and>
   humansize 9147936743096321 \<noteq> Inr (format_size 9147936743096321) \<and>
   float_of_int 9147936743096321 = Inr (Float 4573968371548160 1) \<and>
   humansize (2 ^ 1024) = Inl OverflowError"
proof -
  have a: "humansize 9147936743096321 = Inr ''8.12  PB''" by code_simp
  have b: "format_size 9147936743096321 = ''8.13  PB''" by code_simp
  have c: "float_of_int 9147936743096321 = Inr (Float 4573968371548160 1)" by code_simp
  have d: "humansize (2 ^ 1024) = Inl OverflowError" by code_simp
  from a b have "humansize 9147936743096321 \<noteq> Inr (format_size 9147936743096321)" by simp
  with a b c d show ?thesis by (intro conjI)
qed

text \<open>
  C8, amended. For a non-negative byte count \<open>n\<close>, \<^verbatim>\<open>humansize\<close> returns the format of the
  specification, \<open>format_size\<close>, of the value of \<^verbatim>\<open>float(n)\<close>: divided by 1024 while the
  value is at least 1024 and a larger unit remains, rounded to the nearest hundredth (a tie
  to the even one), written with two decimals without trailing zeros and trailing point,
  then the unit. Below \<open>2 ^ 53\<close> the conversion to \<^verbatim>\<open>float\<close> is exact and the value is \<open>n\<close>
  itself; a count too large for a \<^verbatim>\<open>float\<close> ends in \<^verbatim>\<open>OverflowError\<close>. The five values of
  the specification are as stated.
\<close>

theorem humansize_format:
  assumes "0 \<le> n"
  shows "humansize n = (case float_of_int n of
                          Inl e \<Rightarrow> Inl OverflowError
                        | Inr (Float m k) \<Rightarrow> Inr (format_size (m * 2 ^ nat k))) \<and>
         (n < 2 ^ 53 \<longrightarrow> float_of_int n = Inr (Float n 0) \<and> humansize n = Inr (format_size n)) \<and>
         (\<forall>a d. 0 < d \<longrightarrow> \<bar>2 * (round_half_even a d * d - a)\<bar> \<le> d) \<and>
         humansize 0 = Inr ''0  B'' \<and>
         humansize 1023 = Inr ''1023  B'' \<and>
         humansize 1024 = Inr ''1  KB'' \<and>
         humansize 1536 = Inr ''1.5  KB'' \<and>
         humansize 1073741824 = Inr ''1  GB''"
proof -
  have a: "humansize n = (case float_of_int n of
                          Inl e \<Rightarrow> Inl OverflowError
                        | Inr (Float m k) \<Rightarrow> Inr (format_size (m * 2 ^ nat k)))"
  proof (cases "n < 1024")
    case True
    with assms have "float_of_int n = Inr (Float n 0)"
      by (intro float_of_int_small) simp_all
    with humansize_small [OF assms True] show ?thesis by simp
  next
    case False
    with assms show ?thesis by (intro humansize_large) simp_all
  qed
  have b: "float_of_int n = Inr (Float n 0) \<and> humansize n = Inr (format_size n)" if "n < 2 ^ 53"
  proof -
    from assms that have "float_of_int n = Inr (Float n 0)" by (rule float_of_int_small)
    with a show ?thesis by simp
  qed
  from a b round_half_even_nearest humansize_examples show ?thesis by blast
qed

theorem humansize_format_witness:
  "(0::int) \<le> 1536 \<and> (1536::int) < 2 ^ 53 \<and> float_of_int 1536 = Inr (Float 1536 0) \<and>
   divisions 1536 0 = 1 \<and> round_half_even (100 * 1536) (1024 ^ 1) = 150 \<and>
   two_decimals 150 = ''1.50'' \<and> format_size 1536 = ''1.5  KB'' \<and>
   humansize 1536 = Inr (format_size 1536)"
proof -
  have h: "(0::int) \<le> 1536" by simp
  have "divisions 1536 0 = 1" by code_simp
  moreover have "round_half_even (100 * 1536) (1024 ^ 1) = 150" by code_simp
  moreover have "two_decimals 150 = ''1.50''" by code_simp
  moreover have "format_size 1536 = ''1.5  KB''" by code_simp
  ultimately show ?thesis using humansize_format [OF h] by simp
qed

subsection \<open>The example report, evaluated\<close>

lemma Path_of_str_report:
  "Path_of_str ''/var/www/html/data/u/files/x/a'' = Path Root (files_u @ [''x'', ''a''])"
  "Path_of_str ''/var/www/html/data/u/files/y/a'' = Path Root (files_u @ [''y'', ''a''])"
  "Path_of_str ''/var/www/html/data/u/files/'' = Path Root files_u"
  by (simp_all add: Path_of_str_def path_parts_def files_u_def)

lemma report_built:
  "JDupesOutput_init example_date example_info report_json = Inr report_output"
  by (simp add: JDupesOutput_init_def report_json_def example_date_def get_matchsets_def
      MatchSet_init_def get_file_list_def Path_of_str_report set_add_def
      report_output_def report_group_def)

lemma report_folders:
  "folders_with_duplicates report_output = [Path Root (files_u @ [''x'']), Path Root (files_u @ [''y''])]"
  by (simp add: folders_with_duplicates_def report_output_def report_group_def set_add_def
      parent_def butlast_append)

lemma report_cache:
  "folder_cache report_output (Path Root (files_u @ [''x''])) = Some [report_group]"
  "folder_cache report_output (Path Root (files_u @ [''y''])) = Some [report_group]"
  by (simp_all add: report_output_def create_folder_cache_def directory_list_def cache_add_def
      set_add_def parent_def report_group_def butlast_append)

lemma report_duplicates:
  "duplicates_in_folder report_output (Path Root (files_u @ [''x''])) =
     Inr [\<lparr>in_duplicate_folder = Path Root (files_u @ [''x'', ''a'']),
           other_paths = {Path Root (files_u @ [''y'', ''a''])}, size_dup = JInt 2048\<rparr>]"
  "duplicates_in_folder report_output (Path Root (files_u @ [''y''])) =
     Inr [\<lparr>in_duplicate_folder = Path Root (files_u @ [''y'', ''a'']),
           other_paths = {Path Root (files_u @ [''x'', ''a''])}, size_dup = JInt 2048\<rparr>]"
  by (auto simp: duplicates_in_folder_def report_cache duplicate_of_def set_remove_def
      parent_def add_entry_def entry_key_def report_group_def butlast_append)

lemma humansize_2048: "humansize 2048 = Inr ''2  KB''"
  by code_simp

lemma report_fields:
  "nextcloud_info report_output = example_info"
  "match_sets report_output = [report_group]"
  by (simp_all add: report_output_def)

lemma report_env_fields:
  "iterdir report_env p =
     (if p = Path Root (files_u @ [''x''])
        then Some [Path Root (files_u @ [''x'', ''a'']), Path Root (files_u @ [''x'', ''n''])]
      else if p = Path Root (files_u @ [''y''])
        then Some [Path Root (files_u @ [''y'', ''a''])]
      else None)"
  "is_dir report_env p = (p = Path NoRoot [''x''] \<or> p = Path NoRoot [''y''])"
  "quote report_env s = s"
  "frozenset_iter report_env ps =
     filter (\<lambda>p. p \<in> ps) [Path Root (files_u @ [''x'', ''a'']), Path Root (files_u @ [''y'', ''a''])]"
  "folders_iter report_env fs = fs"
  "entries_iter report_env ds = ds"
  by (simp_all add: report_env_def)

lemma report_parse:
  "parse_folders report_env report_output =
     Inr [(Path Root (files_u @ [''x'']),
           [\<lparr>in_duplicate_folder = Path Root (files_u @ [''x'', ''a'']),
             other_paths = {Path Root (files_u @ [''y'', ''a''])}, size_dup = JInt 2048\<rparr>],
           [Path Root (files_u @ [''x'', ''n''])]),
          (Path Root (files_u @ [''y'']),
           [\<lparr>in_duplicate_folder = Path Root (files_u @ [''y'', ''a'']),
             other_paths = {Path Root (files_u @ [''x'', ''a''])}, size_dup = JInt 2048\<rparr>],
           [])]"
  by (simp add: parse_folders_def parse_folder_def report_folders report_env_fields
      report_duplicates set_add_def)

lemma example_info_fields:
  "domain example_info = ''https://cloud.example''"
  "user example_info = ''u''"
  by (simp_all add: example_info_def)

lemma report_user_file_path: "user_file_path example_info = Path Root files_u"
  by (simp add: user_file_path_def example_info_fields Path_of_str_report)

lemma report_relative:
  "relative_to (Path Root (files_u @ ps)) (Path Root files_u) = Inr (Path NoRoot ps)"
  by (simp add: relative_to_def)

lemma report_links:
  "create_link report_env example_info (Path Root (files_u @ [''x'']))
     = ''[x](https://cloud.example/apps/files/?dir=/x)''"
  "create_link report_env example_info (Path Root (files_u @ [''y'']))
     = ''[y](https://cloud.example/apps/files/?dir=/y)''"
  "create_link report_env example_info (Path Root (files_u @ [''x'', ''a'']))
     = ''[x](https://cloud.example/apps/files/?dir=/x)/a''"
  "create_link report_env example_info (Path Root (files_u @ [''y'', ''a'']))
     = ''[y](https://cloud.example/apps/files/?dir=/y)/a''"
  by (simp_all add: create_link_def report_user_file_path report_relative report_env_fields
      create_folder_link_def str_of_Path_def base_file_url_def report_fields example_info_fields
      parent_def name_def)

lemma report_sums:
  "duplicate_folder_sum report_output (Path Root (files_u @ [''x''])) = Inr 2048"
  "duplicate_folder_sum report_output (Path Root (files_u @ [''y''])) = Inr 2048"
  "total_size report_output = Inr 2048"
  by (simp_all add: duplicate_folder_sum_def report_duplicates py_sum_def total_size_def
      report_fields report_group_def)

lemma report_lines_y:
  "folder_lines report_env report_output
     (Path Root (files_u @ [''y'']),
      [\<lparr>in_duplicate_folder = Path Root (files_u @ [''y'', ''a'']),
        other_paths = {Path Root (files_u @ [''x'', ''a''])}, size_dup = JInt 2048\<rparr>],
      []) =
   Inr [''## Ordner mit Duplikaten: [y](https://cloud.example/apps/files/?dir=/y)'',
        ''Die Duplikate in diesem Ordner sind 2  KB gro'' @ [CHR 0xDF] @ ''  '',
        ''Dieser Ordner enth'' @ [CHR 0xE4] @ ''lt nur Duplikate  '',
        ''### Duplizierte Dateien:'',
        ''- y/a  '',
        [CHR 0x09] @ ''Gr'' @ [CHR 0xF6, CHR 0xDF] @ ''e: 2  KB  '',
        [CHR 0x09] @ ''Andere(r) Ordner:  '',
        [CHR 0x09] @ ''- [x](https://cloud.example/apps/files/?dir=/x)/a  '']"
  by (simp add: folder_lines_def report_fields report_sums humansize_2048 duplicate_lines_def
      report_user_file_path report_relative report_links only_duplicates_line_def
      str_of_Path_def report_env_fields)

lemma report_lines_x:
  "folder_lines report_env report_output
     (Path Root (files_u @ [''x'']),
      [\<lparr>in_duplicate_folder = Path Root (files_u @ [''x'', ''a'']),
        other_paths = {Path Root (files_u @ [''y'', ''a''])}, size_dup = JInt 2048\<rparr>],
      [Path Root (files_u @ [''x'', ''n''])]) =
   Inr [''## Ordner mit Duplikaten: [x](https://cloud.example/apps/files/?dir=/x)'',
        ''Die Duplikate in diesem Ordner sind 2  KB gro'' @ [CHR 0xDF] @ ''  '',
        ''### Duplizierte Dateien:'',
        ''- x/a  '',
        [CHR 0x09] @ ''Gr'' @ [CHR 0xF6, CHR 0xDF] @ ''e: 2  KB  '',
        [CHR 0x09] @ ''Andere(r) Ordner:  '',
        [CHR 0x09] @ ''- [y](https://cloud.example/apps/files/?dir=/y)/a  '',
        ''### Nicht duplizierte Dateien'',
        ''- x/n'']"
  by (simp add: folder_lines_def report_fields report_sums humansize_2048 duplicate_lines_def
      report_user_file_path report_relative report_links only_duplicates_line_def
      str_of_Path_def report_env_fields)

lemma str_of_nat_small: "str_of_nat 1 = ''1''" "str_of_nat 2 = ''2''"
  by code_simp+

lemma report_sorted:
  "sort_key (\<lambda>x. length (snd (snd x)))
     [(Path Root (files_u @ [''x'']),
       [\<lparr>in_duplicate_folder = Path Root (files_u @ [''x'', ''a'']),
         other_paths = {Path Root (files_u @ [''y'', ''a''])}, size_dup = JInt 2048\<rparr>],
       [Path Root (files_u @ [''x'', ''n''])]),
      (Path Root (files_u @ [''y'']),
       [\<lparr>in_duplicate_folder = Path Root (files_u @ [''y'', ''a'']),
         other_paths = {Path Root (files_u @ [''x'', ''a''])}, size_dup = JInt 2048\<rparr>],
       [])]
   = [(Path Root (files_u @ [''y'']),
       [\<lparr>in_duplicate_folder = Path Root (files_u @ [''y'', ''a'']),
         other_paths = {Path Root (files_u @ [''x'', ''a''])}, size_dup = JInt 2048\<rparr>],
       []),
      (Path Root (files_u @ [''x'']),
       [\<lparr>in_duplicate_folder = Path Root (files_u @ [''x'', ''a'']),
         other_paths = {Path Root (files_u @ [''y'', ''a''])}, size_dup = JInt 2048\<rparr>],
       [Path Root (files_u @ [''x'', ''n''])])]"
  by simp

lemma report_text: "to_markdown report_env report_output = Inr report_markdown"
  by (simp add: to_markdown_def report_parse report_sorted report_sums humansize_2048
      header_lines_def report_fields report_folders example_info_fields report_lines_x
      report_lines_y report_markdown_def str_of_nat_small del: sort_key_simps)

subsection \<open>The order of the folders and the header\<close>

lemma only_duplicates_line_neq: "only_duplicates_line \<noteq> ''### Duplizierte Dateien:''"
  by (simp add: only_duplicates_line_def)

lemma folder_lines_Inr:
  assumes "folder_lines env self t = Inr ls"
  shows "3 \<le> length ls"
    and "ls ! 0 = ''## Ordner mit Duplikaten: '' @ create_link env (nextcloud_info self) (fst t)"
    and "snd (snd t) = [] \<longleftrightarrow> ls ! 2 = only_duplicates_line"
    and "snd (snd t) = [] \<longrightarrow> only_duplicates_line \<in> set ls"
  using assms only_duplicates_line_neq
  by (auto simp: folder_lines_def Let_def split: sum.splits if_splits)

lemma to_markdown_Inr:
  assumes "to_markdown env self = Inr text"
  shows "\<exists>dfs n total_str sections.
           parse_folders env self = Inr dfs \<and> total_size self = Inr n \<and>
           humansize n = Inr total_str \<and>
           list_all2 (\<lambda>t ls. folder_lines env self t = Inr ls)
             (sort_key (\<lambda>t. length (snd (snd t))) dfs) sections \<and>
           text = join [CHR 0x0A] (header_lines self total_str @ concat sections)"
proof -
  from assms obtain dfs n total_str result where
    p: "parse_folders env self = Inr dfs" and n: "total_size self = Inr n"
    and h: "humansize n = Inr total_str"
    and f: "foldM (\<lambda>entry result. case folder_lines env self entry of
                                    Inl e \<Rightarrow> Inl e
                                  | Inr ls \<Rightarrow> Inr (result @ ls))
             (sort_key (\<lambda>x. length (snd (snd x))) dfs)
             (header_lines self total_str) = Inr result"
    and t: "text = join [CHR 0x0A] result"
    by (auto simp: to_markdown_def split: sum.splits)
  from foldM_append [where g = "folder_lines env self", OF f] obtain sections where
    "list_all2 (\<lambda>t ls. folder_lines env self t = Inr ls)
       (sort_key (\<lambda>t. length (snd (snd t))) dfs) sections"
    and "result = header_lines self total_str @ concat sections" by blast
  with p n h t show ?thesis by blast
qed

text \<open>\<^verbatim>\<open>sep.join\<close> of a non-empty list: the first string, then each other one after \<open>sep\<close>.\<close>

lemma join_concat: "join sep (x # xs) = x @ concat (map (\<lambda>y. sep @ y) xs)"
  by (induction xs arbitrary: x) simp_all

text \<open>
  C4. In a rendered report the sections of the folders follow the header in the order of
  \<^verbatim>\<open>sorted\<close> by the number of non-duplicate files of the folder (the files of the
  directory listing that are no file of an entry of the folder), ascending, so folders
  without such files come first; folders with the same number keep the order in which the
  set \<^verbatim>\<open>folders_with_duplicates\<close> is iterated. Each section starts with the heading of its
  folder; its third line is the marker line (\<open>only_duplicates_line\<close>, written out in the
  statement; 0xE4 is the a with diaeresis) exactly when the folder has no non-duplicate file. The text is the first line of the header
  followed by every other line of the header and of the sections, in this order, each
  after a line feed.
\<close>

theorem report_folders_sorted:
  assumes "to_markdown env self = Inr text"
  shows "\<exists>dfs total_str sections h hs.
           parse_folders env self = Inr dfs \<and>
           map fst dfs = folders_iter env (folders_with_duplicates self) \<and>
           list_all2 (\<lambda>folder t. \<exists>all_files.
                        iterdir env folder = Some all_files \<and>
                        duplicates_in_folder self folder = Inr (fst (snd t)) \<and>
                        snd (snd t) =
                          filter (\<lambda>x. x \<notin> in_duplicate_folder ` set (fst (snd t))) all_files)
             (folders_iter env (folders_with_duplicates self)) dfs \<and>
           sorted (map (\<lambda>t. length (snd (snd t))) (sort_key (\<lambda>t. length (snd (snd t))) dfs)) \<and>
           set (sort_key (\<lambda>t. length (snd (snd t))) dfs) = set dfs \<and>
           length (sort_key (\<lambda>t. length (snd (snd t))) dfs) = length dfs \<and>
           (\<forall>k. filter (\<lambda>t. length (snd (snd t)) = k) (sort_key (\<lambda>t. length (snd (snd t))) dfs)
                  = filter (\<lambda>t. length (snd (snd t)) = k) dfs) \<and>
           list_all2 (\<lambda>t ls. folder_lines env self t = Inr ls \<and> 3 \<le> length ls \<and>
                        ls ! 0 = ''## Ordner mit Duplikaten: '' @
                                   create_link env (nextcloud_info self) (fst t) \<and>
                        (snd (snd t) = [] \<longleftrightarrow>
                           ls ! 2 = ''Dieser Ordner enth'' @ [CHR 0xE4] @ ''lt nur Duplikate  '') \<and>
                        (snd (snd t) = [] \<longrightarrow>
                           ''Dieser Ordner enth'' @ [CHR 0xE4] @ ''lt nur Duplikate  '' \<in> set ls))
             (sort_key (\<lambda>t. length (snd (snd t))) dfs) sections \<and>
           header_lines self total_str = h # hs \<and>
           text = h @ concat (map (\<lambda>l. CHR 0x0A # l) (hs @ concat sections))"
proof -
  from to_markdown_Inr [OF assms] obtain dfs total_str sections where
    p: "parse_folders env self = Inr dfs"
    and l: "list_all2 (\<lambda>t ls. folder_lines env self t = Inr ls)
             (sort_key (\<lambda>t. length (snd (snd t))) dfs) sections"
    and t: "text = join [CHR 0x0A] (header_lines self total_str @ concat sections)"
    by blast
  obtain h hs where hd: "header_lines self total_str = h # hs"
    by (simp add: header_lines_def)
  have a: "list_all2 (\<lambda>folder t. \<exists>all_files.
                        iterdir env folder = Some all_files \<and>
                        duplicates_in_folder self folder = Inr (fst (snd t)) \<and>
                        snd (snd t) =
                          filter (\<lambda>x. x \<notin> in_duplicate_folder ` set (fst (snd t))) all_files)
             (folders_iter env (folders_with_duplicates self)) dfs"
    using parse_folders_Inr [OF p] by (rule list_all2_mono) (rule parse_folder_Inr(2))
  have b: "list_all2 (\<lambda>t ls. folder_lines env self t = Inr ls \<and> 3 \<le> length ls \<and>
                        ls ! 0 = ''## Ordner mit Duplikaten: '' @
                                   create_link env (nextcloud_info self) (fst t) \<and>
                        (snd (snd t) = [] \<longleftrightarrow>
                           ls ! 2 = ''Dieser Ordner enth'' @ [CHR 0xE4] @ ''lt nur Duplikate  '') \<and>
                        (snd (snd t) = [] \<longrightarrow>
                           ''Dieser Ordner enth'' @ [CHR 0xE4] @ ''lt nur Duplikate  '' \<in> set ls))
             (sort_key (\<lambda>t. length (snd (snd t))) dfs) sections"
    using l
  proof (rule list_all2_mono)
    fix t ls
    assume f: "folder_lines env self t = Inr ls"
    from f folder_lines_Inr [OF f, unfolded only_duplicates_line_def]
    show "folder_lines env self t = Inr ls \<and> 3 \<le> length ls \<and>
                        ls ! 0 = ''## Ordner mit Duplikaten: '' @
                                   create_link env (nextcloud_info self) (fst t) \<and>
                        (snd (snd t) = [] \<longleftrightarrow>
                           ls ! 2 = ''Dieser Ordner enth'' @ [CHR 0xE4] @ ''lt nur Duplikate  '') \<and>
                        (snd (snd t) = [] \<longrightarrow>
                           ''Dieser Ordner enth'' @ [CHR 0xE4] @ ''lt nur Duplikate  '' \<in> set ls)"
      by blast
  qed
  have c: "sorted (map (\<lambda>t. length (snd (snd t))) (sort_key (\<lambda>t. length (snd (snd t))) dfs))"
    by (rule sorted_sort_key)
  have st: "\<forall>k. filter (\<lambda>t. length (snd (snd t)) = k) (sort_key (\<lambda>t. length (snd (snd t))) dfs)
                  = filter (\<lambda>t. length (snd (snd t)) = k) dfs"
    by (simp add: sort_key_stable)
  have t': "text = h @ concat (map (\<lambda>l. CHR 0x0A # l) (hs @ concat sections))"
    unfolding t hd by (simp add: join_concat)
  show ?thesis
  proof (intro exI conjI)
    show "parse_folders env self = Inr dfs" by (rule p)
    show "map fst dfs = folders_iter env (folders_with_duplicates self)"
      using p by (rule parse_folders_fst)
    show "list_all2 (\<lambda>folder t. \<exists>all_files.
                        iterdir env folder = Some all_files \<and>
                        duplicates_in_folder self folder = Inr (fst (snd t)) \<and>
                        snd (snd t) =
                          filter (\<lambda>x. x \<notin> in_duplicate_folder ` set (fst (snd t))) all_files)
             (folders_iter env (folders_with_duplicates self)) dfs" by (rule a)
    show "sorted (map (\<lambda>t. length (snd (snd t))) (sort_key (\<lambda>t. length (snd (snd t))) dfs))"
      by (rule c)
    show "set (sort_key (\<lambda>t. length (snd (snd t))) dfs) = set dfs" by simp
    show "length (sort_key (\<lambda>t. length (snd (snd t))) dfs) = length dfs" by simp
    show "\<forall>k. filter (\<lambda>t. length (snd (snd t)) = k) (sort_key (\<lambda>t. length (snd (snd t))) dfs)
                  = filter (\<lambda>t. length (snd (snd t)) = k) dfs" by (rule st)
    show "list_all2 (\<lambda>t ls. folder_lines env self t = Inr ls \<and> 3 \<le> length ls \<and>
                        ls ! 0 = ''## Ordner mit Duplikaten: '' @
                                   create_link env (nextcloud_info self) (fst t) \<and>
                        (snd (snd t) = [] \<longleftrightarrow>
                           ls ! 2 = ''Dieser Ordner enth'' @ [CHR 0xE4] @ ''lt nur Duplikate  '') \<and>
                        (snd (snd t) = [] \<longrightarrow>
                           ''Dieser Ordner enth'' @ [CHR 0xE4] @ ''lt nur Duplikate  '' \<in> set ls))
             (sort_key (\<lambda>t. length (snd (snd t))) dfs) sections" by (rule b)
    show "header_lines self total_str = h # hs" by (rule hd)
    show "text = h @ concat (map (\<lambda>l. CHR 0x0A # l) (hs @ concat sections))" by (rule t')
  qed
qed

theorem report_folders_sorted_witness:
  "to_markdown report_env report_output = Inr report_markdown \<and>
   folders_iter report_env (folders_with_duplicates report_output)
     = [Path Root (files_u @ [''x'']), Path Root (files_u @ [''y''])] \<and>
   (\<exists>dfs total_str sections h hs.
      parse_folders report_env report_output = Inr dfs \<and>
      map fst dfs = [Path Root (files_u @ [''x'']), Path Root (files_u @ [''y''])] \<and>
      map fst (sort_key (\<lambda>t. length (snd (snd t))) dfs)
        = [Path Root (files_u @ [''y'']), Path Root (files_u @ [''x''])] \<and>
      map (\<lambda>t. length (snd (snd t))) (sort_key (\<lambda>t. length (snd (snd t))) dfs) = [0, 1] \<and>
      list_all2 (\<lambda>t ls. folder_lines report_env report_output t = Inr ls \<and>
                   (snd (snd t) = [] \<longleftrightarrow>
                      ls ! 2 = ''Dieser Ordner enth'' @ [CHR 0xE4] @ ''lt nur Duplikate  ''))
        (sort_key (\<lambda>t. length (snd (snd t))) dfs) sections \<and>
      header_lines report_output total_str = h # hs \<and>
      report_markdown = h @ concat (map (\<lambda>l. CHR 0x0A # l) (hs @ concat sections)))"
proof -
  from report_folders_sorted [OF report_text] obtain dfs total_str sections h hs where
    p: "parse_folders report_env report_output = Inr dfs"
    and f: "map fst dfs = folders_iter report_env (folders_with_duplicates report_output)"
    and l: "list_all2 (\<lambda>t ls. folder_lines report_env report_output t = Inr ls \<and> 3 \<le> length ls \<and>
                        ls ! 0 = ''## Ordner mit Duplikaten: '' @
                                   create_link report_env (nextcloud_info report_output) (fst t) \<and>
                        (snd (snd t) = [] \<longleftrightarrow>
                           ls ! 2 = ''Dieser Ordner enth'' @ [CHR 0xE4] @ ''lt nur Duplikate  '') \<and>
                        (snd (snd t) = [] \<longrightarrow>
                           ''Dieser Ordner enth'' @ [CHR 0xE4] @ ''lt nur Duplikate  '' \<in> set ls))
             (sort_key (\<lambda>t. length (snd (snd t))) dfs) sections"
    and hd: "header_lines report_output total_str = h # hs"
    and t: "report_markdown = h @ concat (map (\<lambda>l. CHR 0x0A # l) (hs @ concat sections))"
    by blast
  have fi: "folders_iter report_env (folders_with_duplicates report_output)
     = [Path Root (files_u @ [''x'']), Path Root (files_u @ [''y''])]"
    by (simp only: report_env_fields report_folders)
  from f have f': "map fst dfs = [Path Root (files_u @ [''x'']), Path Root (files_u @ [''y''])]"
    by (simp only: fi)
  from l have l': "list_all2 (\<lambda>t ls. folder_lines report_env report_output t = Inr ls \<and>
                   (snd (snd t) = [] \<longleftrightarrow>
                      ls ! 2 = ''Dieser Ordner enth'' @ [CHR 0xE4] @ ''lt nur Duplikate  ''))
        (sort_key (\<lambda>t. length (snd (snd t))) dfs) sections"
    by (rule list_all2_mono) simp
  from p have "dfs = [(Path Root (files_u @ [''x'']),
           [\<lparr>in_duplicate_folder = Path Root (files_u @ [''x'', ''a'']),
             other_paths = {Path Root (files_u @ [''y'', ''a''])}, size_dup = JInt 2048\<rparr>],
           [Path Root (files_u @ [''x'', ''n''])]),
          (Path Root (files_u @ [''y'']),
           [\<lparr>in_duplicate_folder = Path Root (files_u @ [''y'', ''a'']),
             other_paths = {Path Root (files_u @ [''x'', ''a''])}, size_dup = JInt 2048\<rparr>],
           [])]"
    by (simp add: report_parse)
  then have d: "sort_key (\<lambda>t. length (snd (snd t))) dfs =
      [(Path Root (files_u @ [''y'']),
       [\<lparr>in_duplicate_folder = Path Root (files_u @ [''y'', ''a'']),
         other_paths = {Path Root (files_u @ [''x'', ''a''])}, size_dup = JInt 2048\<rparr>],
       []),
      (Path Root (files_u @ [''x'']),
       [\<lparr>in_duplicate_folder = Path Root (files_u @ [''x'', ''a'']),
         other_paths = {Path Root (files_u @ [''y'', ''a''])}, size_dup = JInt 2048\<rparr>],
       [Path Root (files_u @ [''x'', ''n''])])]"
    by (simp only: report_sorted)
  have m: "map fst (sort_key (\<lambda>t. length (snd (snd t))) dfs)
        = [Path Root (files_u @ [''y'']), Path Root (files_u @ [''x''])]"
    and k: "map (\<lambda>t. length (snd (snd t))) (sort_key (\<lambda>t. length (snd (snd t))) dfs) = [0, 1]"
    unfolding d by simp_all
  have "\<exists>dfs total_str sections h hs.
      parse_folders report_env report_output = Inr dfs \<and>
      map fst dfs = [Path Root (files_u @ [''x'']), Path Root (files_u @ [''y''])] \<and>
      map fst (sort_key (\<lambda>t. length (snd (snd t))) dfs)
        = [Path Root (files_u @ [''y'']), Path Root (files_u @ [''x''])] \<and>
      map (\<lambda>t. length (snd (snd t))) (sort_key (\<lambda>t. length (snd (snd t))) dfs) = [0, 1] \<and>
      list_all2 (\<lambda>t ls. folder_lines report_env report_output t = Inr ls \<and>
                   (snd (snd t) = [] \<longleftrightarrow>
                      ls ! 2 = ''Dieser Ordner enth'' @ [CHR 0xE4] @ ''lt nur Duplikate  ''))
        (sort_key (\<lambda>t. length (snd (snd t))) dfs) sections \<and>
      header_lines report_output total_str = h # hs \<and>
      report_markdown = h @ concat (map (\<lambda>l. CHR 0x0A # l) (hs @ concat sections))"
  proof (intro exI conjI)
    show "parse_folders report_env report_output = Inr dfs" by (rule p)
    show "map fst dfs = [Path Root (files_u @ [''x'']), Path Root (files_u @ [''y''])]"
      by (rule f')
    show "map fst (sort_key (\<lambda>t. length (snd (snd t))) dfs)
        = [Path Root (files_u @ [''y'']), Path Root (files_u @ [''x''])]" by (rule m)
    show "map (\<lambda>t. length (snd (snd t))) (sort_key (\<lambda>t. length (snd (snd t))) dfs) = [0, 1]"
      by (rule k)
    show "list_all2 (\<lambda>t ls. folder_lines report_env report_output t = Inr ls \<and>
                   (snd (snd t) = [] \<longleftrightarrow>
                      ls ! 2 = ''Dieser Ordner enth'' @ [CHR 0xE4] @ ''lt nur Duplikate  ''))
        (sort_key (\<lambda>t. length (snd (snd t))) dfs) sections" by (rule l')
    show "header_lines report_output total_str = h # hs" by (rule hd)
    show "report_markdown = h @ concat (map (\<lambda>l. CHR 0x0A # l) (hs @ concat sections))"
      by (rule t)
  qed
  with report_text fi show ?thesis by (intro conjI)
qed

lemma MatchSet_init_Inr:
  assumes "MatchSet_init i x = Inr m"
  shows "ms_id m = i" and "getitem x ''fileSize'' = Inr (file_size m)"
  using assms by (auto simp: MatchSet_init_def split: sum.splits)

lemma matchsets_from_Inr:
  assumes "matchsets_from i xs acc = Inr r" and "\<forall>m \<in> set acc. ms_id m < i" and "distinct acc"
  shows "distinct r \<and>
         (\<exists>ms. r = acc @ ms \<and>
               list_all2 (\<lambda>x m. getitem x ''fileSize'' = Inr (file_size m)) xs ms)"
  using assms
proof (induction xs arbitrary: i acc)
  case Nil
  then show ?case by simp
next
  case (Cons x xs)
  from Cons.prems(1) obtain m where m: "MatchSet_init i x = Inr m"
    and r: "matchsets_from (Suc i) xs (set_add m acc) = Inr r"
    by (auto split: sum.splits)
  from MatchSet_init_Inr [OF m] have i: "ms_id m = i"
    and z: "getitem x ''fileSize'' = Inr (file_size m)" by simp_all
  from i Cons.prems(2) have n: "m \<notin> set acc" by auto
  then have a: "set_add m acc = acc @ [m]" by (simp add: set_add_def)
  from i Cons.prems(2) have b: "\<forall>m' \<in> set (acc @ [m]). ms_id m' < Suc i" by auto
  from n Cons.prems(3) have d: "distinct (acc @ [m])" by simp
  from Cons.IH [OF r [unfolded a] b d] obtain ms where "distinct r"
    and "r = (acc @ [m]) @ ms"
    and "list_all2 (\<lambda>x m. getitem x ''fileSize'' = Inr (file_size m)) xs ms" by blast
  with z have "distinct r \<and> r = acc @ (m # ms) \<and>
      list_all2 (\<lambda>x m. getitem x ''fileSize'' = Inr (file_size m)) (x # xs) (m # ms)" by simp
  then show ?case by blast
qed

lemma get_matchsets_Inr:
  assumes "get_matchsets json_data = Inr ms"
  shows "distinct ms"
    and "\<exists>v records. getitem json_data ''matchSets'' = Inr v \<and> iter v = Inr records \<and>
           list_all2 (\<lambda>r g. getitem r ''fileSize'' = Inr (file_size g)) records ms"
proof -
  from assms obtain v records where v: "getitem json_data ''matchSets'' = Inr v"
    and it: "iter v = Inr records" and m: "matchsets_from 0 records [] = Inr ms"
    by (auto simp: get_matchsets_def split: sum.splits)
  from matchsets_from_Inr [OF m] have "distinct ms"
    and "list_all2 (\<lambda>r g. getitem r ''fileSize'' = Inr (file_size g)) records ms" by auto
  with v it show "distinct ms"
    and "\<exists>v records. getitem json_data ''matchSets'' = Inr v \<and> iter v = Inr records \<and>
           list_all2 (\<lambda>r g. getitem r ''fileSize'' = Inr (file_size g)) records ms"
    by blast+
qed

lemma total_size_Inr:
  assumes "total_size self = Inr n" and "distinct (match_sets self)"
  shows "\<forall>g \<in> set (match_sets self). as_int (file_size g) \<noteq> None"
    and "n = (\<Sum>g \<in> set (match_sets self). the (as_int (file_size g)))"
proof -
  from assms(1) show a: "\<forall>g \<in> set (match_sets self). as_int (file_size g) \<noteq> None"
    by (auto simp: total_size_def py_sum_eq split: if_splits)
  with assms(1) have "n = sum_list (map (\<lambda>g. the (as_int (file_size g))) (match_sets self))"
    by (auto simp: total_size_def py_sum_eq comp_def split: if_splits)
  also from assms(2) have "\<dots> = (\<Sum>g \<in> set (match_sets self). the (as_int (file_size g)))"
    by (rule sum_list_distinct_conv_sum_set)
  finally show "n = (\<Sum>g \<in> set (match_sets self). the (as_int (file_size g)))" .
qed

text \<open>
  C7. The report of a built \<^verbatim>\<open>JDupesOutput\<close> starts with the header: the user, the number
  of groups (one per record of \<^verbatim>\<open>matchSets\<close>; the groups are distinct objects), the number of
  folders with duplicates, and the formatted total size, which is the sum of the sizes of
  the groups, each group once, whatever the number of its entries and folders. The four
  lines of the header are separated by line feeds, and each line of the rest follows a
  line feed.
\<close>

theorem report_header_totals:
  assumes "JDupesOutput_init fromisoformat info json_data = Inr self"
    and "to_markdown env self = Inr text"
  shows "\<exists>records n total_str rest.
           (\<exists>v. getitem json_data ''matchSets'' = Inr v \<and> iter v = Inr records) \<and>
           list_all2 (\<lambda>r g. getitem r ''fileSize'' = Inr (file_size g)) records (match_sets self) \<and>
           distinct (match_sets self) \<and>
           length records = card (set (match_sets self)) \<and>
           (\<forall>g \<in> set (match_sets self). as_int (file_size g) \<noteq> None) \<and>
           total_size self = Inr n \<and>
           n = (\<Sum>g \<in> set (match_sets self). the (as_int (file_size g))) \<and>
           humansize n = Inr total_str \<and>
           text = ''# Duplikate von '' @ user info @ [CHR 0x0A] @
                  ''Es gibt '' @ str_of_nat (int (card (set (match_sets self)))) @
                    '' Duplikate in '' @
                    str_of_nat (int (card (\<Union>g \<in> set (match_sets self). parent ` set (file_list g)))) @
                    '' Ordnern.  '' @ [CHR 0x0A] @
                  ''Diese sind insgesamt '' @ total_str @ '' gro'' @ [CHR 0xDF] @ ''.'' @ [CHR 0x0A] @
                  ''## Alle Ordner mit Duplikaten'' @
                  concat (map (\<lambda>l. CHR 0x0A # l) rest)"
proof -
  from get_matchsets_Inr [OF init_fields(2) [OF assms(1)]] obtain v records where
    d: "distinct (match_sets self)"
    and v: "getitem json_data ''matchSets'' = Inr v" "iter v = Inr records"
    and l: "list_all2 (\<lambda>r g. getitem r ''fileSize'' = Inr (file_size g)) records (match_sets self)"
    by blast
  from to_markdown_Inr [OF assms(2)] obtain n total_str sections where
    n: "total_size self = Inr n" and h: "humansize n = Inr total_str"
    and t: "text = join [CHR 0x0A] (header_lines self total_str @ concat sections)"
    by blast
  from d have c: "length (match_sets self) = card (set (match_sets self))"
    by (simp add: distinct_card)
  have f: "length (folders_with_duplicates self)
      = card (\<Union>g \<in> set (match_sets self). parent ` set (file_list g))"
    using distinct_folders_with_duplicates [of self] set_folders_with_duplicates [of self]
    by (metis distinct_card)
  from l c have lr: "length records = card (set (match_sets self))"
    by (simp add: list_all2_lengthD)
  have hd: "header_lines self total_str =
      [''# Duplikate von '' @ user info,
               ''Es gibt '' @ str_of_nat (int (card (set (match_sets self)))) @
                 '' Duplikate in '' @
                 str_of_nat (int (card (\<Union>g \<in> set (match_sets self). parent ` set (file_list g)))) @
                 '' Ordnern.  '',
               ''Diese sind insgesamt '' @ total_str @ '' gro'' @ [CHR 0xDF] @ ''.'',
               ''## Alle Ordner mit Duplikaten'']"
    by (simp only: header_lines_def c f init_fields(3) [OF assms(1)])
  have t': "text = ''# Duplikate von '' @ user info @ [CHR 0x0A] @
                  ''Es gibt '' @ str_of_nat (int (card (set (match_sets self)))) @
                    '' Duplikate in '' @
                    str_of_nat (int (card (\<Union>g \<in> set (match_sets self). parent ` set (file_list g)))) @
                    '' Ordnern.  '' @ [CHR 0x0A] @
                  ''Diese sind insgesamt '' @ total_str @ '' gro'' @ [CHR 0xDF] @ ''.'' @ [CHR 0x0A] @
                  ''## Alle Ordner mit Duplikaten'' @
                  concat (map (\<lambda>l. CHR 0x0A # l) (concat sections))"
    unfolding t hd by (simp add: join_concat)
  show ?thesis
  proof (intro exI conjI)
    show "getitem json_data ''matchSets'' = Inr v" by (rule v(1))
    show "iter v = Inr records" by (rule v(2))
    show "list_all2 (\<lambda>r g. getitem r ''fileSize'' = Inr (file_size g)) records (match_sets self)"
      by (rule l)
    show "distinct (match_sets self)" by (rule d)
    show "length records = card (set (match_sets self))" by (rule lr)
    show "\<forall>g \<in> set (match_sets self). as_int (file_size g) \<noteq> None"
      using n d by (rule total_size_Inr(1))
    show "total_size self = Inr n" by (rule n)
    show "n = (\<Sum>g \<in> set (match_sets self). the (as_int (file_size g)))"
      using n d by (rule total_size_Inr(2))
    show "humansize n = Inr total_str" by (rule h)
    show "text = ''# Duplikate von '' @ user info @ [CHR 0x0A] @
                  ''Es gibt '' @ str_of_nat (int (card (set (match_sets self)))) @
                    '' Duplikate in '' @
                    str_of_nat (int (card (\<Union>g \<in> set (match_sets self). parent ` set (file_list g)))) @
                    '' Ordnern.  '' @ [CHR 0x0A] @
                  ''Diese sind insgesamt '' @ total_str @ '' gro'' @ [CHR 0xDF] @ ''.'' @ [CHR 0x0A] @
                  ''## Alle Ordner mit Duplikaten'' @
                  concat (map (\<lambda>l. CHR 0x0A # l) (concat sections))"
      by (rule t')
  qed
qed

theorem report_header_totals_witness:
  "JDupesOutput_init example_date example_info report_json = Inr report_output \<and>
   to_markdown report_env report_output = Inr report_markdown \<and>
   total_size report_output = Inr 2048 \<and>
   humansize 2048 = Inr ''2  KB'' \<and>
   card (set (match_sets report_output)) = 1 \<and>
   card (\<Union>g \<in> set (match_sets report_output). parent ` set (file_list g)) = 2 \<and>
   (\<exists>rest.
      report_markdown =
        ''# Duplikate von u'' @ [CHR 0x0A] @
        ''Es gibt 1 Duplikate in 2 Ordnern.  '' @ [CHR 0x0A] @
        ''Diese sind insgesamt 2  KB gro'' @ [CHR 0xDF] @ ''.'' @ [CHR 0x0A] @
        ''## Alle Ordner mit Duplikaten'' @
        concat (map (\<lambda>l. CHR 0x0A # l) rest))"
proof -
  from report_header_totals [OF report_built report_text] obtain n total_str rest where
    "total_size report_output = Inr n" and h: "humansize n = Inr total_str"
    and t: "report_markdown = ''# Duplikate von '' @ user example_info @ [CHR 0x0A] @
                  ''Es gibt '' @ str_of_nat (int (card (set (match_sets report_output)))) @
                    '' Duplikate in '' @
                    str_of_nat (int (card (\<Union>g \<in> set (match_sets report_output).
                                              parent ` set (file_list g)))) @
                    '' Ordnern.  '' @ [CHR 0x0A] @
                  ''Diese sind insgesamt '' @ total_str @ '' gro'' @ [CHR 0xDF] @ ''.'' @ [CHR 0x0A] @
                  ''## Alle Ordner mit Duplikaten'' @
                  concat (map (\<lambda>l. CHR 0x0A # l) rest)"
    by blast
  then have "n = 2048" by (simp add: report_sums)
  with h have ts: "total_str = ''2  KB''" by (simp add: humansize_2048)
  have c1: "card (set (match_sets report_output)) = 1" by (simp add: report_fields)
  have "(\<Union>g \<in> set (match_sets report_output). parent ` set (file_list g))
          = set (folders_with_duplicates report_output)"
    by (simp only: set_folders_with_duplicates)
  also have "\<dots> = {Path Root (files_u @ [''x'']), Path Root (files_u @ [''y''])}"
    by (simp add: report_folders)
  finally have u: "(\<Union>g \<in> set (match_sets report_output). parent ` set (file_list g))
          = {Path Root (files_u @ [''x'']), Path Root (files_u @ [''y''])}" .
  have c2: "card (\<Union>g \<in> set (match_sets report_output). parent ` set (file_list g)) = 2"
    unfolding u by simp
  from t have "report_markdown =
        ''# Duplikate von u'' @ [CHR 0x0A] @
        ''Es gibt 1 Duplikate in 2 Ordnern.  '' @ [CHR 0x0A] @
        ''Diese sind insgesamt 2  KB gro'' @ [CHR 0xDF] @ ''.'' @ [CHR 0x0A] @
        ''## Alle Ordner mit Duplikaten'' @
        concat (map (\<lambda>l. CHR 0x0A # l) rest)"
    unfolding c1 c2 ts by (simp add: example_info_fields str_of_nat_small)
  then have "\<exists>rest.
      report_markdown =
        ''# Duplikate von u'' @ [CHR 0x0A] @
        ''Es gibt 1 Duplikate in 2 Ordnern.  '' @ [CHR 0x0A] @
        ''Diese sind insgesamt 2  KB gro'' @ [CHR 0xDF] @ ''.'' @ [CHR 0x0A] @
        ''## Alle Ordner mit Duplikaten'' @
        concat (map (\<lambda>l. CHR 0x0A # l) rest)" by (rule exI)
  with report_built report_text report_sums(3) humansize_2048 c1 c2 show ?thesis by (intro conjI)
qed

subsection \<open>duplicates\_in\_folder changes no object it is given\<close>

lemma get_list_extend:
  "get_list st a = Inr xs \<Longrightarrow> get_list (st\<lparr>objects := objects st @ ext\<rparr>) a = Inr xs"
  by (auto simp: get_list_def nth_append split: if_splits obj.splits)

lemma deref_extend:
  "get_list st (ref_file_list g) = Inr xs \<Longrightarrow>
   deref (st\<lparr>objects := objects st @ ext\<rparr>) g = deref st g"
  by (simp add: deref_def get_list_extend)

lemma duplicate_of_ref_ok:
  assumes "get_list st (ref_file_list g) = Inr xs" and "fp \<in> set xs"
  shows "duplicate_of_ref st g fp =
           Inr (\<lparr>in_duplicate_folder = fp, other_paths = set xs - {fp},
                 size_dup = ref_file_size g\<rparr>,
                st\<lparr>objects := objects st @ [ListObj xs, SetObj (set xs - {fp})]\<rparr>)"
  using assms
  by (simp add: duplicate_of_ref_def list_copy_def set_init_def set_remove_at_def alloc_def
      get_list_def get_set_def nth_append list_update_append)

lemma duplicate_of_deref:
  assumes "get_list st (ref_file_list g) = Inr xs" and "fp \<in> set xs"
  shows "duplicate_of (deref st g) fp =
           Inr \<lparr>in_duplicate_folder = fp, other_paths = set xs - {fp},
                size_dup = ref_file_size g\<rparr>"
  using assms by (simp add: duplicate_of_def set_remove_def deref_def)

lemma files_loop_ok:
  assumes "get_list st (ref_file_list g) = Inr xs"
  shows "(\<exists>ext res'.
           files_loop g folder i result st
             = Some (Inr (res', st\<lparr>objects := objects st @ ext\<rparr>)) \<and>
           foldM (\<lambda>file_path result.
                   if parent file_path = folder
                   then (case duplicate_of (deref st g) file_path of
                           Inl e \<Rightarrow> Inl e
                         | Inr d \<Rightarrow> add_entry d result)
                   else Inr result)
             (drop i xs) result = Inr res') \<or>
         (\<exists>e. files_loop g folder i result st = Some (Inl e) \<and>
           foldM (\<lambda>file_path result.
                   if parent file_path = folder
                   then (case duplicate_of (deref st g) file_path of
                           Inl e \<Rightarrow> Inl e
                         | Inr d \<Rightarrow> add_entry d result)
                   else Inr result)
             (drop i xs) result = Inl e)"
  using assms
proof (induction "length xs - i" arbitrary: i result st)
  case 0
  then have "\<not> i < length xs" by simp
  with "0.prems" have "files_loop g folder i result st = Some (Inr (result, st\<lparr>objects := objects st @ []\<rparr>))"
    by (subst files_loop.simps) simp
  moreover from 0 have "drop i xs = []" by simp
  ultimately show ?case by (metis foldM.simps(1))
next
  case (Suc n)
  then have i: "i < length xs" by simp
  then have d: "drop i xs = xs ! i # drop (Suc i) xs" by (simp add: Cons_nth_drop_Suc)
  from i have m: "xs ! i \<in> set xs" by simp
  from Suc.hyps(2) have n: "n = length xs - Suc i" by simp
  show ?case
  proof (cases "parent (xs ! i) = folder")
    case True
    let ?d = "\<lparr>in_duplicate_folder = xs ! i, other_paths = set xs - {xs ! i},
                 size_dup = ref_file_size g\<rparr>"
    let ?st = "st\<lparr>objects := objects st @ [ListObj xs, SetObj (set xs - {xs ! i})]\<rparr>"
    show ?thesis
    proof (cases "add_entry ?d result")
      case (Inl e)
      from Suc.prems i True Inl
      have "files_loop g folder i result st = Some (Inl e)"
        by (subst files_loop.simps) (simp add: duplicate_of_ref_ok [OF Suc.prems m])
      moreover from True Inl have "foldM (\<lambda>file_path result.
                   if parent file_path = folder
                   then (case duplicate_of (deref st g) file_path of
                           Inl e \<Rightarrow> Inl e
                         | Inr d \<Rightarrow> add_entry d result)
                   else Inr result)
             (drop i xs) result = Inl e"
        by (simp add: d duplicate_of_deref [OF Suc.prems m])
      ultimately show ?thesis by blast
    next
      case (Inr r1)
      from Suc.prems have g: "get_list ?st (ref_file_list g) = Inr xs" by (rule get_list_extend)
      have df: "deref ?st g = deref st g" using Suc.prems by (rule deref_extend)
      from Suc.prems i True Inr
      have u: "files_loop g folder i result st = files_loop g folder (Suc i) r1 ?st"
        by (subst files_loop.simps) (simp add: duplicate_of_ref_ok [OF Suc.prems m])
      from True Inr have w: "foldM (\<lambda>file_path result.
                   if parent file_path = folder
                   then (case duplicate_of (deref st g) file_path of
                           Inl e \<Rightarrow> Inl e
                         | Inr d \<Rightarrow> add_entry d result)
                   else Inr result)
             (drop i xs) result
           = foldM (\<lambda>file_path result.
                   if parent file_path = folder
                   then (case duplicate_of (deref st g) file_path of
                           Inl e \<Rightarrow> Inl e
                         | Inr d \<Rightarrow> add_entry d result)
                   else Inr result)
             (drop (Suc i) xs) r1"
        by (simp add: d duplicate_of_deref [OF Suc.prems m])
      from Suc.hyps(1) [OF n g, of r1, unfolded df]
      show ?thesis
      proof (elim disjE exE conjE)
        fix ext res'
        assume l: "files_loop g folder (Suc i) r1 ?st
                     = Some (Inr (res', ?st\<lparr>objects := objects ?st @ ext\<rparr>))"
          and f: "foldM (\<lambda>file_path result.
                   if parent file_path = folder
                   then (case duplicate_of (deref st g) file_path of
                           Inl e \<Rightarrow> Inl e
                         | Inr d \<Rightarrow> add_entry d result)
                   else Inr result)
             (drop (Suc i) xs) r1 = Inr res'"
        have e: "?st\<lparr>objects := objects ?st @ ext\<rparr>
            = st\<lparr>objects := objects st @ ([ListObj xs, SetObj (set xs - {xs ! i})] @ ext)\<rparr>"
          by simp
        from u l have "files_loop g folder i result st
            = Some (Inr (res', st\<lparr>objects := objects st @ ([ListObj xs, SetObj (set xs - {xs ! i})] @ ext)\<rparr>))"
          by (simp only: e)
        moreover from w f have "foldM (\<lambda>file_path result.
                   if parent file_path = folder
                   then (case duplicate_of (deref st g) file_path of
                           Inl e \<Rightarrow> Inl e
                         | Inr d \<Rightarrow> add_entry d result)
                   else Inr result)
             (drop i xs) result = Inr res'" by (simp only:)
        ultimately show ?thesis by blast
      next
        fix e
        assume l: "files_loop g folder (Suc i) r1 ?st = Some (Inl e)"
          and f: "foldM (\<lambda>file_path result.
                   if parent file_path = folder
                   then (case duplicate_of (deref st g) file_path of
                           Inl e \<Rightarrow> Inl e
                         | Inr d \<Rightarrow> add_entry d result)
                   else Inr result)
             (drop (Suc i) xs) r1 = Inl e"
        from u l have "files_loop g folder i result st = Some (Inl e)" by (simp only:)
        moreover from w f have "foldM (\<lambda>file_path result.
                   if parent file_path = folder
                   then (case duplicate_of (deref st g) file_path of
                           Inl e \<Rightarrow> Inl e
                         | Inr d \<Rightarrow> add_entry d result)
                   else Inr result)
             (drop i xs) result = Inl e" by (simp only:)
        ultimately show ?thesis by blast
      qed
    qed
  next
    case False
    from Suc.prems i False
    have u: "files_loop g folder i result st = files_loop g folder (Suc i) result st"
      by (subst files_loop.simps) simp
    from False have w: "foldM (\<lambda>file_path result.
                   if parent file_path = folder
                   then (case duplicate_of (deref st g) file_path of
                           Inl e \<Rightarrow> Inl e
                         | Inr d \<Rightarrow> add_entry d result)
                   else Inr result)
             (drop i xs) result
           = foldM (\<lambda>file_path result.
                   if parent file_path = folder
                   then (case duplicate_of (deref st g) file_path of
                           Inl e \<Rightarrow> Inl e
                         | Inr d \<Rightarrow> add_entry d result)
                   else Inr result)
             (drop (Suc i) xs) result"
      by (simp add: d)
    from Suc.hyps(1) [OF n Suc.prems, of result] show ?thesis
      unfolding u w .
  qed
qed

lemma groups_loop_ok:
  assumes "\<forall>g \<in> set gs. \<exists>xs. get_list st (ref_file_list g) = Inr xs"
  shows "(\<exists>ext res'.
           groups_loop gs folder result st
             = Some (Inr (res', st\<lparr>objects := objects st @ ext\<rparr>)) \<and>
           foldM (\<lambda>match_set result.
                   foldM (\<lambda>file_path result.
                           if parent file_path = folder
                           then (case duplicate_of match_set file_path of
                                   Inl e \<Rightarrow> Inl e
                                 | Inr d \<Rightarrow> add_entry d result)
                           else Inr result)
                     (file_list match_set) result)
             (map (deref st) gs) result = Inr res') \<or>
         (\<exists>e. groups_loop gs folder result st = Some (Inl e) \<and>
           foldM (\<lambda>match_set result.
                   foldM (\<lambda>file_path result.
                           if parent file_path = folder
                           then (case duplicate_of match_set file_path of
                                   Inl e \<Rightarrow> Inl e
                                 | Inr d \<Rightarrow> add_entry d result)
                           else Inr result)
                     (file_list match_set) result)
             (map (deref st) gs) result = Inl e)"
  using assms
proof (induction gs arbitrary: result st)
  case Nil
  have "groups_loop [] folder result st = Some (Inr (result, st\<lparr>objects := objects st @ []\<rparr>))"
    by simp
  then show ?case by (metis foldM.simps(1) list.simps(8))
next
  case (Cons g gs)
  from Cons.prems obtain xs where xs: "get_list st (ref_file_list g) = Inr xs" by auto
  then have fl: "file_list (deref st g) = xs" by (simp add: deref_def)
  from files_loop_ok [OF xs, of folder 0 result] show ?case
  proof (elim disjE exE conjE)
    fix ext1 res1
    assume l1: "files_loop g folder 0 result st = Some (Inr (res1, st\<lparr>objects := objects st @ ext1\<rparr>))"
      and f1': "foldM (\<lambda>file_path result.
                   if parent file_path = folder
                   then (case duplicate_of (deref st g) file_path of
                           Inl e \<Rightarrow> Inl e
                         | Inr d \<Rightarrow> add_entry d result)
                   else Inr result)
             (drop 0 xs) result = Inr res1"
    from f1' have f1: "foldM (\<lambda>file_path result.
                   if parent file_path = folder
                   then (case duplicate_of (deref st g) file_path of
                           Inl e \<Rightarrow> Inl e
                         | Inr d \<Rightarrow> add_entry d result)
                   else Inr result)
             xs result = Inr res1" by simp
    let ?st = "st\<lparr>objects := objects st @ ext1\<rparr>"
    from Cons.prems have v: "\<forall>g \<in> set gs. \<exists>xs. get_list ?st (ref_file_list g) = Inr xs"
      by (auto intro: get_list_extend)
    from Cons.prems have "\<forall>g \<in> set gs. deref ?st g = deref st g"
      by (auto intro: deref_extend)
    then have m: "map (deref ?st) gs = map (deref st) gs" by simp
    from l1 have u: "groups_loop (g # gs) folder result st = groups_loop gs folder res1 ?st"
      by simp
    from f1 have w: "foldM (\<lambda>match_set result.
                   foldM (\<lambda>file_path result.
                           if parent file_path = folder
                           then (case duplicate_of match_set file_path of
                                   Inl e \<Rightarrow> Inl e
                                 | Inr d \<Rightarrow> add_entry d result)
                           else Inr result)
                     (file_list match_set) result)
             (map (deref st) (g # gs)) result
          = foldM (\<lambda>match_set result.
                   foldM (\<lambda>file_path result.
                           if parent file_path = folder
                           then (case duplicate_of match_set file_path of
                                   Inl e \<Rightarrow> Inl e
                                 | Inr d \<Rightarrow> add_entry d result)
                           else Inr result)
                     (file_list match_set) result)
             (map (deref st) gs) res1"
      by (simp add: fl)
    from Cons.IH [OF v, of res1, unfolded m] show ?thesis
    proof (elim disjE exE conjE)
      fix ext2 res2
      assume l2: "groups_loop gs folder res1 ?st
                    = Some (Inr (res2, ?st\<lparr>objects := objects ?st @ ext2\<rparr>))"
        and f2: "foldM (\<lambda>match_set result.
                   foldM (\<lambda>file_path result.
                           if parent file_path = folder
                           then (case duplicate_of match_set file_path of
                                   Inl e \<Rightarrow> Inl e
                                 | Inr d \<Rightarrow> add_entry d result)
                           else Inr result)
                     (file_list match_set) result)
             (map (deref st) gs) res1 = Inr res2"
      have e: "?st\<lparr>objects := objects ?st @ ext2\<rparr> = st\<lparr>objects := objects st @ (ext1 @ ext2)\<rparr>"
        by simp
      from u l2 have "groups_loop (g # gs) folder result st
          = Some (Inr (res2, st\<lparr>objects := objects st @ (ext1 @ ext2)\<rparr>))"
        by (simp only: e)
      moreover from w f2 have "foldM (\<lambda>match_set result.
                   foldM (\<lambda>file_path result.
                           if parent file_path = folder
                           then (case duplicate_of match_set file_path of
                                   Inl e \<Rightarrow> Inl e
                                 | Inr d \<Rightarrow> add_entry d result)
                           else Inr result)
                     (file_list match_set) result)
             (map (deref st) (g # gs)) result = Inr res2" by (simp only:)
      ultimately show ?thesis by blast
    next
      fix e
      assume l2: "groups_loop gs folder res1 ?st = Some (Inl e)"
        and f2: "foldM (\<lambda>match_set result.
                   foldM (\<lambda>file_path result.
                           if parent file_path = folder
                           then (case duplicate_of match_set file_path of
                                   Inl e \<Rightarrow> Inl e
                                 | Inr d \<Rightarrow> add_entry d result)
                           else Inr result)
                     (file_list match_set) result)
             (map (deref st) gs) res1 = Inl e"
      from u l2 have "groups_loop (g # gs) folder result st = Some (Inl e)" by (simp only:)
      moreover from w f2 have "foldM (\<lambda>match_set result.
                   foldM (\<lambda>file_path result.
                           if parent file_path = folder
                           then (case duplicate_of match_set file_path of
                                   Inl e \<Rightarrow> Inl e
                                 | Inr d \<Rightarrow> add_entry d result)
                           else Inr result)
                     (file_list match_set) result)
             (map (deref st) (g # gs)) result = Inl e" by (simp only:)
      ultimately show ?thesis by blast
    qed
  next
    fix e
    assume l1: "files_loop g folder 0 result st = Some (Inl e)"
      and f1': "foldM (\<lambda>file_path result.
                   if parent file_path = folder
                   then (case duplicate_of (deref st g) file_path of
                           Inl e \<Rightarrow> Inl e
                         | Inr d \<Rightarrow> add_entry d result)
                   else Inr result)
             (drop 0 xs) result = Inl e"
    from l1 have "groups_loop (g # gs) folder result st = Some (Inl e)" by simp
    moreover from f1' have "foldM (\<lambda>match_set result.
                   foldM (\<lambda>file_path result.
                           if parent file_path = folder
                           then (case duplicate_of match_set file_path of
                                   Inl e \<Rightarrow> Inl e
                                 | Inr d \<Rightarrow> add_entry d result)
                           else Inr result)
                     (file_list match_set) result)
             (map (deref st) (g # gs)) result = Inl e"
      by (simp add: fl)
    ultimately show ?thesis by blast
  qed
qed

text \<open>The call on a store and the definition on values end in the same way.\<close>

lemma duplicates_in_folder_store_value:
  assumes "cache st folder = Some gs"
    and "\<forall>g \<in> set gs. \<exists>xs. get_list st (ref_file_list g) = Inr xs"
  shows "(\<exists>ext es. duplicates_in_folder_store st folder
                     = Some (Inr (es, st\<lparr>objects := objects st @ ext\<rparr>)) \<and>
                   duplicates_in_folder (self\<lparr>folder_cache := cache_values st\<rparr>) folder = Inr es) \<or>
         (\<exists>e. duplicates_in_folder_store st folder = Some (Inl e) \<and>
              duplicates_in_folder (self\<lparr>folder_cache := cache_values st\<rparr>) folder = Inl e)"
  using groups_loop_ok [OF assms(2), of folder "[]"] assms(1)
  by (simp add: duplicates_in_folder_store_def duplicates_in_folder_def cache_values_def)

lemma cache_values_extend:
  assumes "cache st folder = Some gs"
    and "\<forall>g \<in> set gs. \<exists>xs. get_list st (ref_file_list g) = Inr xs"
  shows "cache_values (st\<lparr>objects := objects st @ ext\<rparr>) folder = cache_values st folder"
proof -
  from assms(2) have "\<forall>g \<in> set gs. deref (st\<lparr>objects := objects st @ ext\<rparr>) g = deref st g"
    by (auto intro: deref_extend)
  then have "map (deref (st\<lparr>objects := objects st @ ext\<rparr>)) gs = map (deref st) gs" by simp
  with assms(1) show ?thesis by (simp add: cache_values_def)
qed

lemma duplicates_in_folder_cong:
  "folder_cache self folder = folder_cache self' folder \<Longrightarrow>
   duplicates_in_folder self folder = duplicates_in_folder self' folder"
  by (simp add: duplicates_in_folder_def)

text \<open>
  C10. On a store in which the folder is indexed and the match sets of the folder point to
  their file lists, \<^verbatim>\<open>duplicates_in_folder\<close> ends (its loops end), and it ends as the
  definition on values does: with the same entries, or with the same exception, which can
  only be the \<^verbatim>\<open>TypeError\<close> of hashing an entry; with integer sizes it returns. When it
  returns, the store it leaves differs from the one it found only by objects allocated
  after the existing ones: the folder cache is the same and every object that existed, so
  every match set's file list, is unchanged (\<^verbatim>\<open>remove\<close> writes to the set made from the
  copy). A second call on the store that the first one left returns the same entries and
  again changes nothing that existed.
\<close>

theorem duplicates_in_folder_store_pure:
  assumes "cache st folder = Some gs"
    and "\<forall>g \<in> set gs. \<exists>xs. get_list st (ref_file_list g) = Inr xs"
  shows "\<exists>r. duplicates_in_folder_store st folder = Some r \<and>
           (\<forall>e. r = Inl e \<longrightarrow>
              e = TypeError \<and>
              duplicates_in_folder (self\<lparr>folder_cache := cache_values st\<rparr>) folder = Inl e) \<and>
           ((\<forall>g \<in> set gs. is_JInt (ref_file_size g)) \<longrightarrow> (\<exists>es st'. r = Inr (es, st'))) \<and>
           (\<forall>es st'. r = Inr (es, st') \<longrightarrow>
              cache st' = cache st \<and>
              take (length (objects st)) (objects st') = objects st \<and>
              (\<forall>g \<in> set gs. get_list st' (ref_file_list g) = get_list st (ref_file_list g)) \<and>
              duplicates_in_folder (self\<lparr>folder_cache := cache_values st\<rparr>) folder = Inr es \<and>
              (\<exists>st''. duplicates_in_folder_store st' folder = Some (Inr (es, st'')) \<and>
                      cache st'' = cache st \<and>
                      take (length (objects st)) (objects st'') = objects st))"
proof -
  let ?self = "self\<lparr>folder_cache := cache_values st\<rparr>"
  have c: "folder_cache ?self folder = Some (map (deref st) gs)"
    using assms(1) by (simp add: cache_values_def)
  have t: "e = TypeError" if "duplicates_in_folder ?self folder = Inl e" for e
    using duplicates_in_folder_Inl [OF that] c by auto
  have i: "\<exists>es. duplicates_in_folder ?self folder = Inr es"
    if "\<forall>g \<in> set gs. is_JInt (ref_file_size g)"
  proof -
    from that have "\<forall>g \<in> set (map (deref st) gs). is_JInt (file_size g)"
      by (simp add: deref_def)
    from duplicates_in_folder_cached [OF c this] show ?thesis by blast
  qed
  from duplicates_in_folder_store_value [OF assms, of self] show ?thesis
  proof (elim disjE exE conjE)
    fix e
    assume s: "duplicates_in_folder_store st folder = Some (Inl e)"
      and v: "duplicates_in_folder ?self folder = Inl e"
    from t [OF v] have te: "e = TypeError" .
    have ni: "\<not> (\<forall>g \<in> set gs. is_JInt (ref_file_size g))"
      using i v by auto
    show ?thesis
    proof (intro exI conjI allI impI)
      show "duplicates_in_folder_store st folder = Some (Inl e)" by (rule s)
      show "e' = TypeError" if "Inl e = Inl e'" for e' :: error and dummy :: "DuplicateInFolder list \<times> Store"
        using that te by simp
    qed (use v ni in auto)
  next
    fix ext es
    assume s: "duplicates_in_folder_store st folder
                 = Some (Inr (es, st\<lparr>objects := objects st @ ext\<rparr>))"
      and v: "duplicates_in_folder ?self folder = Inr es"
    let ?st = "st\<lparr>objects := objects st @ ext\<rparr>"
    have c': "cache ?st folder = Some gs" using assms(1) by simp
    from assms(2) have w: "\<forall>g \<in> set gs. \<exists>xs. get_list ?st (ref_file_list g) = Inr xs"
      by (auto intro: get_list_extend)
    from assms(2) have g: "\<forall>g \<in> set gs. get_list ?st (ref_file_list g) = get_list st (ref_file_list g)"
      by (auto simp: get_list_extend)
    have "folder_cache (self\<lparr>folder_cache := cache_values ?st\<rparr>) folder = folder_cache ?self folder"
      using cache_values_extend [OF assms, of ext] by simp
    then have "duplicates_in_folder (self\<lparr>folder_cache := cache_values ?st\<rparr>) folder
        = duplicates_in_folder ?self folder"
      by (rule duplicates_in_folder_cong)
    with v have v': "duplicates_in_folder (self\<lparr>folder_cache := cache_values ?st\<rparr>) folder = Inr es"
      by (simp only:)
    from duplicates_in_folder_store_value [OF c' w, of self] v'
    obtain ext' where s': "duplicates_in_folder_store ?st folder
        = Some (Inr (es, ?st\<lparr>objects := objects ?st @ ext'\<rparr>))"
      by auto
    have p: "cache st' = cache st \<and>
              take (length (objects st)) (objects st') = objects st \<and>
              (\<forall>g \<in> set gs. get_list st' (ref_file_list g) = get_list st (ref_file_list g)) \<and>
              duplicates_in_folder ?self folder = Inr es' \<and>
              (\<exists>st''. duplicates_in_folder_store st' folder = Some (Inr (es', st'')) \<and>
                      cache st'' = cache st \<and>
                      take (length (objects st)) (objects st'') = objects st)"
      if r: "(Inr (es, ?st) :: error + DuplicateInFolder list \<times> Store) = Inr (es', st')" for es' st'
    proof -
      from r have e: "es' = es" "st' = ?st" by simp_all
      have "\<exists>st''. duplicates_in_folder_store ?st folder = Some (Inr (es, st'')) \<and>
                      cache st'' = cache st \<and>
                      take (length (objects st)) (objects st'') = objects st"
      proof (intro exI conjI)
        show "duplicates_in_folder_store ?st folder
                = Some (Inr (es, ?st\<lparr>objects := objects ?st @ ext'\<rparr>))" by (rule s')
        show "cache (?st\<lparr>objects := objects ?st @ ext'\<rparr>) = cache st" by simp
        show "take (length (objects st)) (objects (?st\<lparr>objects := objects ?st @ ext'\<rparr>)) = objects st"
          by simp
      qed
      with g v show ?thesis unfolding e by simp
    qed
    show ?thesis
    proof (intro exI conjI)
      show "duplicates_in_folder_store st folder = Some (Inr (es, ?st))" by (rule s)
      show "\<forall>e. (Inr (es, ?st) :: error + DuplicateInFolder list \<times> Store) = Inl e \<longrightarrow>
              e = TypeError \<and> duplicates_in_folder ?self folder = Inl e" by simp
      show "(\<forall>g \<in> set gs. is_JInt (ref_file_size g)) \<longrightarrow>
              (\<exists>es' st'. (Inr (es, ?st) :: error + DuplicateInFolder list \<times> Store) = Inr (es', st'))"
        by simp
      show "\<forall>es' st'. (Inr (es, ?st) :: error + DuplicateInFolder list \<times> Store) = Inr (es', st') \<longrightarrow>
              cache st' = cache st \<and>
              take (length (objects st)) (objects st') = objects st \<and>
              (\<forall>g \<in> set gs. get_list st' (ref_file_list g) = get_list st (ref_file_list g)) \<and>
              duplicates_in_folder ?self folder = Inr es' \<and>
              (\<exists>st''. duplicates_in_folder_store st' folder = Some (Inr (es', st'')) \<and>
                      cache st'' = cache st \<and>
                      take (length (objects st)) (objects st'') = objects st)"
        using p by blast
    qed
  qed
qed

theorem duplicates_in_folder_store_pure_witness:
  "cache example_store (Path Root [''d2'']) = Some [ref_A, ref_B] \<and>
   get_list example_store (ref_file_list ref_A)
     = Inr [Path Root [''d1'', ''a''], Path Root [''d1'', ''b''], Path Root [''d2'', ''a'']] \<and>
   get_list example_store (ref_file_list ref_B)
     = Inr [Path Root [''d2'', ''c''], Path Root [''d2'', ''d'']] \<and>
   is_JInt (ref_file_size ref_A) \<and> is_JInt (ref_file_size ref_B) \<and>
   (\<exists>es st'.
      duplicates_in_folder_store example_store (Path Root [''d2'']) = Some (Inr (es, st')) \<and>
      cache st' = cache example_store \<and>
      take 2 (objects st') = objects example_store \<and>
      get_list st' (ref_file_list ref_A) = get_list example_store (ref_file_list ref_A) \<and>
      (\<exists>st''. duplicates_in_folder_store st' (Path Root [''d2'']) = Some (Inr (es, st''))))"
proof -
  have c: "cache example_store (Path Root [''d2'']) = Some [ref_A, ref_B]"
    by (simp add: example_store_def)
  have a: "get_list example_store (ref_file_list ref_A)
     = Inr [Path Root [''d1'', ''a''], Path Root [''d1'', ''b''], Path Root [''d2'', ''a'']]"
    by (simp add: example_store_def ref_A_def get_list_def)
  have b: "get_list example_store (ref_file_list ref_B)
     = Inr [Path Root [''d2'', ''c''], Path Root [''d2'', ''d'']]"
    by (simp add: example_store_def ref_B_def get_list_def)
  from a b have w: "\<forall>g \<in> set [ref_A, ref_B]. \<exists>xs. get_list example_store (ref_file_list g) = Inr xs"
    by simp
  have ia: "is_JInt (ref_file_size ref_A)" and ib: "is_JInt (ref_file_size ref_B)"
    by (simp_all add: ref_A_def ref_B_def)
  then have j: "\<forall>g \<in> set [ref_A, ref_B]. is_JInt (ref_file_size g)" by simp
  have n: "length (objects example_store) = 2" by (simp add: example_store_def)
  from duplicates_in_folder_store_pure [OF c w, of undefined] obtain r where
    r: "duplicates_in_folder_store example_store (Path Root [''d2'']) = Some r"
    and r1: "(\<forall>g \<in> set [ref_A, ref_B]. is_JInt (ref_file_size g)) \<longrightarrow> (\<exists>es st'. r = Inr (es, st'))"
    and r2: "\<forall>es st'. r = Inr (es, st') \<longrightarrow>
              cache st' = cache example_store \<and>
              take (length (objects example_store)) (objects st') = objects example_store \<and>
              (\<forall>g \<in> set [ref_A, ref_B].
                 get_list st' (ref_file_list g) = get_list example_store (ref_file_list g)) \<and>
              duplicates_in_folder (undefined\<lparr>folder_cache := cache_values example_store\<rparr>)
                (Path Root [''d2'']) = Inr es \<and>
              (\<exists>st''. duplicates_in_folder_store st' (Path Root [''d2'']) = Some (Inr (es, st'')) \<and>
                      cache st'' = cache example_store \<and>
                      take (length (objects example_store)) (objects st'') = objects example_store)"
    by blast
  from r1 j obtain es st' where e: "r = Inr (es, st')" by blast
  from r2 e obtain st'' where
    "cache st' = cache example_store"
    "take (length (objects example_store)) (objects st') = objects example_store"
    "\<forall>g \<in> set [ref_A, ref_B]. get_list st' (ref_file_list g) = get_list example_store (ref_file_list g)"
    "duplicates_in_folder_store st' (Path Root [''d2'']) = Some (Inr (es, st''))"
    by blast
  with r e have "\<exists>es st'.
      duplicates_in_folder_store example_store (Path Root [''d2'']) = Some (Inr (es, st')) \<and>
      cache st' = cache example_store \<and>
      take 2 (objects st') = objects example_store \<and>
      get_list st' (ref_file_list ref_A) = get_list example_store (ref_file_list ref_A) \<and>
      (\<exists>st''. duplicates_in_folder_store st' (Path Root [''d2'']) = Some (Inr (es, st'')))"
    unfolding n by auto
  with c a b ia ib show ?thesis by (intro conjI)
qed

end
